theory Spec2Isabelle
  imports Main "HOL-Library.Word"
begin

unbundle bit_operations_syntax

section \<open>Values shared by the client and the server\<close>

text \<open>
  The two programs (\<^verbatim>\<open>client.go\<close> and the server) are separate \<^verbatim>\<open>package main\<close>s that
  repeat the same constants. A Go \<^verbatim>\<open>byte\<close> is an 8-bit word, a \<^verbatim>\<open>uint32\<close>/\<^verbatim>\<open>int32\<close> a 32-bit
  word. A Go \<^verbatim>\<open>int\<close> is modelled as a HOL \<open>int\<close> for a 64-bit platform: every \<^verbatim>\<open>int\<close> the
  programs compute is a length, a cursor or a widened \<^verbatim>\<open>uint32\<close>, far inside 64 bits, so
  only the conversions to and from 32 bits are written out. A Go \<^verbatim>\<open>string\<close> is a \<open>string\<close>;
  \<^verbatim>\<open>[]byte(s)\<close> and \<^verbatim>\<open>string(b)\<close> convert bytewise.
\<close>

type_synonym byte = "8 word"

datatype error = EOF | Err string

text \<open>\<^verbatim>\<open>err.Error()\<close>: the message of an error; \<^verbatim>\<open>io.EOF\<close> has the message \<^verbatim>\<open>EOF\<close>.\<close>

fun Error :: "error \<Rightarrow> string" where
  "Error EOF = ''EOF''"
| "Error (Err s) = s"

text \<open>A run-time panic ends the goroutine: an index out of range, \<^verbatim>\<open>make\<close> with a negative
  length, a method call through a nil pointer.\<close>

datatype panic = IndexOutOfRange | MakesliceLenOutOfRange | NilDereference

definition bufferSize :: nat where
  "bufferSize = 1024 * 1024"

definition arguments :: nat where
  "arguments = 3"

definition bytes_of_string :: "string \<Rightarrow> byte list" where
  "bytes_of_string s = map of_char s"

definition string_of_bytes :: "byte list \<Rightarrow> string" where
  "string_of_bytes b = map (\<lambda>x. char_of (unat x)) b"

text \<open>\<^verbatim>\<open>strings.Contains(s, substr)\<close>: \<^verbatim>\<open>substr\<close> occurs in \<^verbatim>\<open>s\<close>.\<close>

fun Contains :: "string \<Rightarrow> string \<Rightarrow> bool" where
  "Contains [] substr = (substr = [])"
| "Contains (c # cs) substr = (take (length substr) (c # cs) = substr \<or> Contains cs substr)"

section \<open>encoding/binary: big-endian 32-bit words\<close>

text \<open>\<^verbatim>\<open>int32(num)\<close> keeps the low 32 bits of \<^verbatim>\<open>num\<close>; \<^verbatim>\<open>uint32(intSend)\<close> keeps the bits
  of the \<^verbatim>\<open>int32\<close>; \<^verbatim>\<open>int(u)\<close> of a \<^verbatim>\<open>uint32\<close> is its unsigned value (64-bit \<^verbatim>\<open>int\<close>).\<close>

definition int32 :: "int \<Rightarrow> 32 word" where
  "int32 num = word_of_int num"

definition PutUint32 :: "32 word \<Rightarrow> byte list" where
  "PutUint32 v = [ucast (drop_bit 24 v), ucast (drop_bit 16 v), ucast (drop_bit 8 v), ucast v]"

definition Uint32 :: "byte list \<Rightarrow> 32 word" where
  "Uint32 b = ucast (b ! 3) OR push_bit 8 (ucast (b ! 2)) OR push_bit 16 (ucast (b ! 1))
     OR push_bit 24 (ucast (b ! 0))"

section \<open>bufio.Writer over the connection\<close>

text \<open>
  The client writes through \<^verbatim>\<open>bufio.NewWriter(fsm.con)\<close>. The writer holds its buffer
  (\<open>wbuf\<close>, at most \<open>defaultBufSize\<close> bytes), its sticky error (\<open>werr\<close>) and the connection
  it wraps: \<open>sent\<close> lists the writes the connection has accepted, oldest first, and
  \<open>wfail k\<close> is the outcome of the connection's \<open>Write\<close> after \<open>k\<close> accepted writes
  (\<open>None\<close>: the whole slice is written).
\<close>

definition defaultBufSize :: nat where
  "defaultBufSize = 4096"

record Writer =
  wbuf :: "byte list"
  werr :: "error option"
  sent :: "byte list list"
  wfail :: "nat \<Rightarrow> error option"

definition NewWriter :: "(nat \<Rightarrow> error option) \<Rightarrow> Writer" where
  "NewWriter f = \<lparr>wbuf = [], werr = None, sent = [], wfail = f\<rparr>"

definition conn_Write :: "Writer \<Rightarrow> byte list \<Rightarrow> error option \<times> Writer" where
  "conn_Write w p =
     (case wfail w (length (sent w)) of
        None \<Rightarrow> (None, w\<lparr>sent := sent w @ [p]\<rparr>)
      | Some e \<Rightarrow> (Some e, w))"

definition Writer_Flush :: "Writer \<Rightarrow> error option \<times> Writer" where
  "Writer_Flush w =
     (case werr w of
        Some e \<Rightarrow> (Some e, w)
      | None \<Rightarrow>
          if wbuf w = [] then (None, w)
          else (case conn_Write w (wbuf w) of
                  (Some e, w') \<Rightarrow> (Some e, w'\<lparr>werr := Some e\<rparr>)
                | (None, w') \<Rightarrow> (None, w'\<lparr>wbuf := []\<rparr>)))"

text \<open>
  \<^verbatim>\<open>Write(p)\<close>: a slice that fits the free space is copied into the buffer; a larger one
  goes straight to the connection when the buffer is empty; otherwise the buffer is filled
  and flushed first, and the rest is treated the same way.
\<close>

definition Writer_Write :: "Writer \<Rightarrow> byte list \<Rightarrow> error option \<times> Writer" where
  "Writer_Write w p =
     (case werr w of
        Some e \<Rightarrow> (Some e, w)
      | None \<Rightarrow>
          if length p \<le> defaultBufSize - length (wbuf w) then (None, w\<lparr>wbuf := wbuf w @ p\<rparr>)
          else if wbuf w = [] then
            (case conn_Write w p of
               (Some e, w') \<Rightarrow> (Some e, w'\<lparr>werr := Some e\<rparr>)
             | (None, w') \<Rightarrow> (None, w'))
          else
            (let n = defaultBufSize - length (wbuf w) in
             case Writer_Flush (w\<lparr>wbuf := wbuf w @ take n p\<rparr>) of
               (Some e, w') \<Rightarrow> (Some e, w')
             | (None, w') \<Rightarrow>
                 if length (drop n p) \<le> defaultBufSize then (None, w'\<lparr>wbuf := drop n p\<rparr>)
                 else (case conn_Write w' (drop n p) of
                         (Some e, w'') \<Rightarrow> (Some e, w''\<lparr>werr := Some e\<rparr>)
                       | (None, w'') \<Rightarrow> (None, w''))))"

section \<open>The client's codec: sendInt and sendBytes\<close>

definition sendInt :: "Writer \<Rightarrow> int \<Rightarrow> error option \<times> Writer" where
  "sendInt writer num =
     (let intSend = int32 num;
          sendBytes = PutUint32 intSend
      in case Writer_Write writer sendBytes of
           (Some e, w) \<Rightarrow> (Some e, w)
         | (None, w) \<Rightarrow> Writer_Flush w)"

text \<open>The loop of \<^verbatim>\<open>sendBytes\<close>: \<open>start\<close> runs over the payload in steps of \<open>bufferSize\<close>.\<close>

function sendBytes_loop :: "Writer \<Rightarrow> byte list \<Rightarrow> nat \<Rightarrow> (int \<times> error option) \<times> Writer" where
  "sendBytes_loop writer data start =
     (if start < length data then
        (let end = (if start + bufferSize > length data then length data else start + bufferSize);
             chunk = take (end - start) (drop start data)
         in case Writer_Write writer chunk of
              (Some e, w) \<Rightarrow> ((- 1, Some e), w)
            | (None, w) \<Rightarrow>
                (case Writer_Flush w of
                   (Some e, w') \<Rightarrow> ((- 1, Some e), w')
                 | (None, w') \<Rightarrow> sendBytes_loop w' data (start + bufferSize)))
      else ((int (length data), None), writer))"
  by pat_completeness auto
termination
  by (relation "measure (\<lambda>(w, data, start). length data - start)") (auto simp: bufferSize_def)

declare sendBytes_loop.simps [simp del]

definition sendBytes :: "Writer \<Rightarrow> byte list \<Rightarrow> (int \<times> error option) \<times> Writer" where
  "sendBytes writer data =
     (case sendInt writer (int (length data)) of
        (Some e, w) \<Rightarrow> ((- 1, Some e), w)
      | (None, w) \<Rightarrow> sendBytes_loop w data 0)"

section \<open>bufio.Reader over the connection\<close>

text \<open>
  The server reads through \<^verbatim>\<open>bufio.NewReader(con)\<close>. \<open>rbuf\<close> is the unread part of the
  reader's buffer. The connection is the list \<open>rconn\<close> of the segments its successive
  \<open>Read\<close>s will find available (a stream transport may cut the bytes anywhere), and
  \<open>rend\<close> is the error it returns once they are used up (\<open>EOF\<close> when the peer closed).
  A connection returns an error only together with zero bytes, so the reader's stored
  error is nil between calls and is not a field. A peer that neither sends nor closes
  keeps a \<open>Read\<close> waiting for ever; the model covers the connections that end.

  \<open>conn_Read cs cap\<close>: one \<open>Read\<close> of the connection into a slice of \<open>cap\<close> bytes.
\<close>

record Reader =
  rbuf :: "byte list"
  rconn :: "byte list list"
  rend :: error

definition NewReader :: "byte list list \<Rightarrow> error \<Rightarrow> Reader" where
  "NewReader cs e = \<lparr>rbuf = [], rconn = cs, rend = e\<rparr>"

definition conn_Read :: "byte list list \<Rightarrow> nat \<Rightarrow> (byte list \<times> byte list list) option" where
  "conn_Read cs cap =
     (case cs of
        [] \<Rightarrow> None
      | c # cs' \<Rightarrow> Some (take cap c, if cap < length c then drop cap c # cs' else cs'))"

text \<open>
  \<^verbatim>\<open>Read(p)\<close> with \<open>n = len(p)\<close>: the bytes come from the buffer when it holds any, and
  otherwise from at most one \<open>Read\<close> of the connection: straight into \<open>p\<close> when \<open>p\<close> is
  at least as large as the buffer, through the buffer otherwise. The result may be
  shorter than \<open>n\<close>.
\<close>

definition Reader_Read :: "Reader \<Rightarrow> nat \<Rightarrow> (byte list \<times> error option) \<times> Reader" where
  "Reader_Read r n =
     (if n = 0 then (([], None), r)
      else if rbuf r = [] then
        (if defaultBufSize \<le> n then
           (case conn_Read (rconn r) n of
              None \<Rightarrow> (([], Some (rend r)), r)
            | Some (bs, cs') \<Rightarrow> ((bs, None), r\<lparr>rconn := cs'\<rparr>))
         else
           (case conn_Read (rconn r) defaultBufSize of
              None \<Rightarrow> (([], Some (rend r)), r)
            | Some (bs, cs') \<Rightarrow> ((take n bs, None), r\<lparr>rbuf := drop n bs, rconn := cs'\<rparr>)))
      else ((take n (rbuf r), None), r\<lparr>rbuf := drop n (rbuf r)\<rparr>))"

text \<open>
  \<open>stream r\<close> is everything the reader has still to deliver, in order. \<open>header_whole r\<close>
  says that the next \<open>Read\<close> finds at least 4 bytes at hand: in the buffer when it holds
  any, in the connection's next segment otherwise.
\<close>

definition stream :: "Reader \<Rightarrow> byte list" where
  "stream r = rbuf r @ concat (rconn r)"

definition header_whole :: "Reader \<Rightarrow> bool" where
  "header_whole r =
     (if rbuf r = [] then (case rconn r of [] \<Rightarrow> False | c # cs \<Rightarrow> 4 \<le> length c)
      else 4 \<le> length (rbuf r))"

section \<open>The server's codec: receiveInt and receiveBytes\<close>

text \<open>\<open>receivedByte\<close> is 4 zero bytes; \<open>Read\<close> overwrites as many as it returns.\<close>

definition receiveInt :: "Reader \<Rightarrow> (int \<times> error option) \<times> Reader" where
  "receiveInt reader =
     (case Reader_Read reader 4 of
        ((bs, Some e), r) \<Rightarrow> ((- 1, Some e), r)
      | ((bs, None), r) \<Rightarrow>
          (let receivedByte = bs @ replicate (4 - length bs) 0;
               receiveInt = Uint32 receivedByte
           in ((uint receiveInt, None), r)))"

text \<open>
  The loop of \<^verbatim>\<open>receiveBytes\<close>. \<open>got\<close> is \<^verbatim>\<open>data[0:received]\<close>, the part of \<open>data\<close> written
  so far, so \<open>received = length got\<close>; the loop ends with \<open>received = size\<close> and \<open>data = got\<close>.
  It terminates because every \<open>Read\<close> without an error uses up bytes or a segment.
\<close>

definition rsize :: "Reader \<Rightarrow> nat" where
  "rsize r = length (rbuf r) + sum_list (map (\<lambda>c. Suc (length c)) (rconn r))"

lemma Reader_Read_rsize:
  assumes "Reader_Read r n = ((bs, None), r')" and "0 < n"
  shows "rsize r' + length bs \<le> rsize r \<and> (bs = [] \<longrightarrow> rsize r' < rsize r)"
  using assms
  by (auto simp: Reader_Read_def conn_Read_def rsize_def
      split: if_splits list.splits option.splits)

function receiveBytes_loop ::
  "Reader \<Rightarrow> int \<Rightarrow> byte list \<Rightarrow> (byte list \<times> error option) \<times> Reader" where
  "receiveBytes_loop reader size' got =
     (if int (length got) < size' then
        (let remaining = size' - int (length got);
             readSize = (if remaining < int bufferSize then remaining else int bufferSize)
         in case Reader_Read reader (nat readSize) of
              ((bs, Some e), r) \<Rightarrow> (([], Some e), r)
            | ((bs, None), r) \<Rightarrow> receiveBytes_loop r size' (got @ bs))
      else ((got, None), reader))"
  by pat_completeness auto
termination
proof (relation "measure (\<lambda>(r, sz, got). nat (sz - int (length got)) + rsize r)", goal_cases)
  case 1
  show ?case by simp
next
  case (2 reader size' got remaining readSize x1 r bs e)
  then show ?case
    using Reader_Read_rsize [of reader "nat readSize" bs r]
    by (cases bs) (auto simp: bufferSize_def split: if_splits)
qed

declare receiveBytes_loop.simps [simp del]

text \<open>\<^verbatim>\<open>make([]byte, size)\<close> panics on a negative \<open>size\<close>. (Memory is not modelled: a
  slice of any non-negative length can be made.)\<close>

definition receiveBytes :: "Reader \<Rightarrow> panic + ((byte list \<times> error option) \<times> Reader)" where
  "receiveBytes reader =
     (case receiveInt reader of
        ((size', Some e), r) \<Rightarrow> Inr (([], Some e), r)
      | ((size', None), r) \<Rightarrow>
          if size' < 0 then Inl MakesliceLenOutOfRange
          else Inr (receiveBytes_loop r size' []))"

section \<open>The client state machine\<close>

datatype ClientState =
  Initialization | ValidateArgs | ParseIP | ConnetServer | SendFileCount | OpenFile
  | SendFileName | ReadAndSendFileData | SendNextFile | HandleFatalError | HandleError
  | Terminate

datatype Conn = Connected | Closed

text \<open>
  The fields of \<^verbatim>\<open>ClientFSM\<close>; nil is \<open>None\<close>. \<open>file'\<close> (the field \<^verbatim>\<open>file\<close>) holds the path the file was opened
  by. Two more fields record what the run did to the outside: \<open>opened\<close>, the paths
  passed to \<^verbatim>\<open>os.Open\<close> in call order, and \<open>printed\<close>, the lines printed.
\<close>

record ClientFSM =
  err :: "error option"
  currentState :: ClientState
  ip :: string
  port :: string
  fileNames :: "string list"
  currentFile :: int
  con :: "Conn option"
  writer :: "Writer option"
  file' :: "string option"
  opened :: "string list"
  printed :: "string list"

text \<open>
  The outcomes of the client's I/O, which the run does not decide: the arguments
  \<^verbatim>\<open>os.Args[1:]\<close>, the outcome of \<^verbatim>\<open>net.Dial\<close> for an address, of each write on the
  connection, and of \<^verbatim>\<open>os.Open\<close>, \<^verbatim>\<open>File.Stat\<close> (the base name) and \<^verbatim>\<open>os.ReadFile\<close>. The
  last three are called at most once for each value of the cursor, so they are indexed by
  it: any sequence of outcomes is some \<open>World\<close>.
\<close>

record World =
  os_Args :: "string list"
  net_Dial :: "string \<Rightarrow> error option"
  conn_fail :: "nat \<Rightarrow> error option"
  os_Open :: "int \<Rightarrow> string \<Rightarrow> error option"
  File_Stat :: "int \<Rightarrow> string \<Rightarrow> error + string"
  os_ReadFile :: "int \<Rightarrow> string \<Rightarrow> error + byte list"

definition NewClientFSM :: ClientFSM where
  "NewClientFSM =
     \<lparr>err = None, currentState = ValidateArgs, ip = [], port = [], fileNames = [],
      currentFile = 0, con = None, writer = None, file' = None, opened = [], printed = []\<rparr>"

text \<open>\<^verbatim>\<open>fmt.Println("...", err)\<close> prints \<^verbatim>\<open><nil>\<close> for a nil error.\<close>

fun show_err :: "error option \<Rightarrow> string" where
  "show_err None = ''<nil>''"
| "show_err (Some e) = Error e"

text \<open>Each state function returns the next state and the machine as it leaves it.\<close>

definition ClientFSM_ValidateArgsState :: "World \<Rightarrow> ClientFSM \<Rightarrow> ClientState \<times> ClientFSM" where
  "ClientFSM_ValidateArgsState W fsm =
     (let args = os_Args W in
      if length args < arguments then
        (HandleFatalError,
         fsm\<lparr>err := Some (Err
           ''invalid number of arguments, <ip> <port> <filename1>...<filenameN>'')\<rparr>)
      else (ParseIP, fsm\<lparr>ip := args ! 0, port := args ! 1, fileNames := drop 2 args\<rparr>))"

definition ClientFSM_ParseIPState :: "ClientFSM \<Rightarrow> ClientState \<times> ClientFSM" where
  "ClientFSM_ParseIPState fsm =
     (if Contains (ip fsm) '':'' then (ConnetServer, fsm\<lparr>ip := ''['' @ ip fsm @ '']''\<rparr>)
      else (ConnetServer, fsm))"

definition ClientFSM_ConnetServerState :: "World \<Rightarrow> ClientFSM \<Rightarrow> ClientState \<times> ClientFSM" where
  "ClientFSM_ConnetServerState W fsm =
     (case net_Dial W (ip fsm @ '':'' @ port fsm) of
        Some e \<Rightarrow> (HandleFatalError, fsm\<lparr>con := None, err := Some e\<rparr>)
      | None \<Rightarrow>
          (SendFileCount,
           fsm\<lparr>con := Some Connected, err := None, writer := Some (NewWriter (conn_fail W))\<rparr>))"

definition ClientFSM_SendFileCountState :: "ClientFSM \<Rightarrow> panic + ClientState \<times> ClientFSM" where
  "ClientFSM_SendFileCountState fsm =
     (case writer fsm of
        None \<Rightarrow> Inl NilDereference
      | Some w \<Rightarrow>
          (case sendInt w (int (length (fileNames fsm))) of
             (Some e, w') \<Rightarrow> Inr (HandleFatalError, fsm\<lparr>writer := Some w', err := Some e\<rparr>)
           | (None, w') \<Rightarrow> Inr (OpenFile, fsm\<lparr>writer := Some w', currentFile := 0\<rparr>)))"

definition ClientFSM_OpenFileState :: "World \<Rightarrow> ClientFSM \<Rightarrow> panic + ClientState \<times> ClientFSM" where
  "ClientFSM_OpenFileState W fsm =
     (if currentFile fsm < 0 \<or> int (length (fileNames fsm)) \<le> currentFile fsm
      then Inl IndexOutOfRange
      else
        (let path = fileNames fsm ! nat (currentFile fsm);
             fsm1 = fsm\<lparr>opened := opened fsm @ [path]\<rparr>
         in case os_Open W (currentFile fsm) path of
              Some e \<Rightarrow> Inr (HandleError, fsm1\<lparr>file' := None, err := Some e\<rparr>)
            | None \<Rightarrow> Inr (SendFileName, fsm1\<lparr>file' := Some path, err := None\<rparr>)))"

text \<open>\<^verbatim>\<open>Stat\<close> and \<^verbatim>\<open>Close\<close> on a nil file return an error; closing a file changes nothing
  that the machine reads later, so \<^verbatim>\<open>Close\<close> leaves the model's state as it is.\<close>

definition ClientFSM_SendFileNameState :: "World \<Rightarrow> ClientFSM \<Rightarrow> panic + ClientState \<times> ClientFSM" where
  "ClientFSM_SendFileNameState W fsm =
     (case (case file' fsm of
              None \<Rightarrow> Inl (Err ''invalid argument'')
            | Some path \<Rightarrow> File_Stat W (currentFile fsm) path) of
        Inl e \<Rightarrow> Inr (HandleError, fsm\<lparr>err := Some e\<rparr>)
      | Inr name \<Rightarrow>
          (let fname = bytes_of_string name in
           case writer fsm of
             None \<Rightarrow> Inl NilDereference
           | Some w \<Rightarrow>
               (case sendBytes w fname of
                  ((n, Some e), w') \<Rightarrow>
                    Inr (HandleFatalError, fsm\<lparr>writer := Some w', err := Some e\<rparr>)
                | ((n, None), w') \<Rightarrow>
                    Inr (ReadAndSendFileData, fsm\<lparr>writer := Some w', err := None\<rparr>))))"

definition ClientFSM_ReadAndSendFileDataState ::
  "World \<Rightarrow> ClientFSM \<Rightarrow> panic + ClientState \<times> ClientFSM" where
  "ClientFSM_ReadAndSendFileDataState W fsm =
     (if currentFile fsm < 0 \<or> int (length (fileNames fsm)) \<le> currentFile fsm
      then Inl IndexOutOfRange
      else
        (let path = fileNames fsm ! nat (currentFile fsm) in
         case os_ReadFile W (currentFile fsm) path of
           Inl e \<Rightarrow> Inr (HandleError, fsm\<lparr>err := Some e\<rparr>)
         | Inr fileData \<Rightarrow>
             (case writer fsm of
                None \<Rightarrow> Inl NilDereference
              | Some w \<Rightarrow>
                  (case sendBytes w fileData of
                     ((n, Some e), w') \<Rightarrow>
                       Inr (HandleFatalError, fsm\<lparr>writer := Some w', err := Some e\<rparr>)
                   | ((n, None), w') \<Rightarrow>
                       Inr (SendNextFile,
                            fsm\<lparr>writer := Some w', err := None,
                                printed := printed fsm @ [''Sent file '' @ path],
                                currentFile := currentFile fsm + 1\<rparr>)))))"

definition ClientFSM_SendNextFileState :: "ClientFSM \<Rightarrow> ClientState \<times> ClientFSM" where
  "ClientFSM_SendNextFileState fsm =
     (if int (length (fileNames fsm)) \<le> currentFile fsm then (Terminate, fsm)
      else (OpenFile, fsm))"

text \<open>
  \<open>printed\<close> records the text of each line, whichever stream it goes to: \<^verbatim>\<open>log.Println\<close>
  and the builtin \<^verbatim>\<open>println\<close> write to standard error, and \<^verbatim>\<open>log.Println\<close> puts the
  date and the time before the line, which the model leaves out.
\<close>

definition ClientFSM_HandleFatalErrorState :: "ClientFSM \<Rightarrow> ClientState \<times> ClientFSM" where
  "ClientFSM_HandleFatalErrorState fsm =
     (Terminate, fsm\<lparr>printed := printed fsm @ [''Fatal Error: '' @ show_err (err fsm)]\<rparr>)"

definition ClientFSM_HandleFileError :: "ClientFSM \<Rightarrow> ClientState \<times> ClientFSM" where
  "ClientFSM_HandleFileError fsm =
     (SendNextFile,
      fsm\<lparr>printed := printed fsm @ [''Error: '' @ show_err (err fsm)],
          currentFile := currentFile fsm + 1\<rparr>)"

definition ClientFSM_TerminateState :: "ClientFSM \<Rightarrow> ClientFSM" where
  "ClientFSM_TerminateState fsm =
     (let fsm1 = (case con fsm of None \<Rightarrow> fsm | Some c \<Rightarrow> fsm\<lparr>con := Some Closed\<rparr>)
      in fsm1\<lparr>printed := printed fsm1 @ [''Client Exiting...'']\<rparr>)"

text \<open>
  \<^verbatim>\<open>fsm.currentState = fsm.XState()\<close>, and one pass through the \<^verbatim>\<open>switch\<close> of \<^verbatim>\<open>Run\<close> for
  a state other than \<open>Terminate\<close>. The switch has no case for \<open>Initialization\<close>: the pass
  changes nothing.
\<close>

definition enter :: "ClientState \<times> ClientFSM \<Rightarrow> ClientFSM" where
  "enter x = (snd x)\<lparr>currentState := fst x\<rparr>"

definition ClientFSM_iter :: "World \<Rightarrow> ClientFSM \<Rightarrow> panic + ClientFSM" where
  "ClientFSM_iter W fsm =
     (case currentState fsm of
        ValidateArgs \<Rightarrow> Inr (enter (ClientFSM_ValidateArgsState W fsm))
      | ParseIP \<Rightarrow> Inr (enter (ClientFSM_ParseIPState fsm))
      | ConnetServer \<Rightarrow> Inr (enter (ClientFSM_ConnetServerState W fsm))
      | SendFileCount \<Rightarrow> map_sum id enter (ClientFSM_SendFileCountState fsm)
      | OpenFile \<Rightarrow> map_sum id enter (ClientFSM_OpenFileState W fsm)
      | SendFileName \<Rightarrow> map_sum id enter (ClientFSM_SendFileNameState W fsm)
      | ReadAndSendFileData \<Rightarrow> map_sum id enter (ClientFSM_ReadAndSendFileDataState W fsm)
      | SendNextFile \<Rightarrow> Inr (enter (ClientFSM_SendNextFileState fsm))
      | HandleFatalError \<Rightarrow> Inr (enter (ClientFSM_HandleFatalErrorState fsm))
      | HandleError \<Rightarrow> Inr (enter (ClientFSM_HandleFileError fsm))
      | Initialization \<Rightarrow> Inr fsm
      | Terminate \<Rightarrow> Inr fsm)"

text \<open>\<^verbatim>\<open>Run\<close>: the loop ends in \<open>Terminate\<close> or by a panic; \<open>None\<close> is a run that never ends.\<close>

partial_function (option) ClientFSM_Run :: "World \<Rightarrow> ClientFSM \<Rightarrow> (panic + ClientFSM) option" where
  "ClientFSM_Run W fsm =
     (if currentState fsm = Terminate then Some (Inr (ClientFSM_TerminateState fsm))
      else (case ClientFSM_iter W fsm of
              Inl p \<Rightarrow> Some (Inl p)
            | Inr fsm' \<Rightarrow> ClientFSM_Run W fsm'))"

section \<open>The server: address parsing and the per-connection state machine\<close>

text \<open>
  The server's states repeat three names of the client's and are written with the prefix
  \<open>Srv\<close>; in the handler's states \<^verbatim>\<open>HandleError\<close> is \<open>HandleErrorH\<close>. The fields of the
  two server records carry the prefixes \<open>s_\<close> and \<open>h_\<close> where the client has a field of the
  same name. The listener, the signal channel and the accept loop are concurrent and are
  left out.
\<close>

datatype ServerState =
  SrvInitialization | SrvValidateArgs | SrvParseIP | MakeStorageDirectory | SetListening
  | Listening | Termination | FatalError

datatype HandleClientState =
  ReadNumFiles | ReadFileName | ReadFileContent | WriteFile | ReceiveNextFile | HandleErrorH
  | Exit

record ServerFSM =
  s_err :: "error option"
  s_currentState :: ServerState
  s_ip :: string
  s_port :: string
  s_storageDir :: string

definition ServerFSM_ParseIPState :: "ServerFSM \<Rightarrow> ServerState \<times> ServerFSM" where
  "ServerFSM_ParseIPState fsm =
     (if Contains (s_ip fsm) '':'' then
        (MakeStorageDirectory, fsm\<lparr>s_ip := ''['' @ s_ip fsm @ '']''\<rparr>)
      else (MakeStorageDirectory, fsm))"

text \<open>
  The fields of \<^verbatim>\<open>HandleClientFSM\<close>, and two that record what the handler did to the
  outside: \<open>disk\<close>, the files it created with what it wrote to them, and \<open>h_printed\<close>,
  the lines printed. \<open>FileSys\<close> gives the outcomes of \<^verbatim>\<open>os.Create\<close> and \<^verbatim>\<open>File.Write\<close>,
  indexed by the file counter (each is called at most once for a value of it).
\<close>

record HandleClientFSM =
  h_err :: "error option"
  h_currentState :: HandleClientState
  numFiles :: int
  h_currentFile :: int
  fileName :: string
  storageDir :: string
  fileContent :: "byte list"
  reader :: Reader
  disk :: "string \<rightharpoonup> byte list"
  h_printed :: "string list"

record FileSys =
  os_Create :: "int \<Rightarrow> string \<Rightarrow> error option"
  File_Write :: "int \<Rightarrow> string \<Rightarrow> error option"

definition NewHandleClientFSM :: "Reader \<Rightarrow> string \<Rightarrow> HandleClientFSM" where
  "NewHandleClientFSM r dir =
     \<lparr>h_err = None, h_currentState = ReadNumFiles, numFiles = 0, h_currentFile = 0,
      fileName = [], storageDir = dir, fileContent = [], reader = r, disk = Map.empty,
      h_printed = []\<rparr>"

definition HandleClientFSM_ReadNumFilesState ::
  "HandleClientFSM \<Rightarrow> HandleClientState \<times> HandleClientFSM" where
  "HandleClientFSM_ReadNumFilesState fsm =
     (case receiveInt (reader fsm) of
        ((n, Some e), r) \<Rightarrow> (HandleErrorH, fsm\<lparr>reader := r, numFiles := n, h_err := Some e\<rparr>)
      | ((n, None), r) \<Rightarrow> (ReadFileName, fsm\<lparr>reader := r, numFiles := n, h_err := None\<rparr>))"

definition HandleClientFSM_ReadFileNameState ::
  "HandleClientFSM \<Rightarrow> panic + HandleClientState \<times> HandleClientFSM" where
  "HandleClientFSM_ReadFileNameState fsm =
     (case receiveBytes (reader fsm) of
        Inl p \<Rightarrow> Inl p
      | Inr ((fileName', Some e), r) \<Rightarrow> Inr (HandleErrorH, fsm\<lparr>reader := r, h_err := Some e\<rparr>)
      | Inr ((fileName', None), r) \<Rightarrow>
          Inr (ReadFileContent, fsm\<lparr>reader := r, fileName := string_of_bytes fileName'\<rparr>))"

definition HandleClientFSM_ReadFileContentState ::
  "HandleClientFSM \<Rightarrow> panic + HandleClientState \<times> HandleClientFSM" where
  "HandleClientFSM_ReadFileContentState fsm =
     (case receiveBytes (reader fsm) of
        Inl p \<Rightarrow> Inl p
      | Inr ((data, Some e), r) \<Rightarrow>
          Inr (HandleErrorH, fsm\<lparr>reader := r, fileContent := data, h_err := Some e\<rparr>)
      | Inr ((data, None), r) \<Rightarrow>
          Inr (WriteFile, fsm\<lparr>reader := r, fileContent := data, h_err := None\<rparr>))"

definition HandleClientFSM_WriteFileState ::
  "FileSys \<Rightarrow> HandleClientFSM \<Rightarrow> HandleClientState \<times> HandleClientFSM" where
  "HandleClientFSM_WriteFileState F fsm =
     (let path = storageDir fsm @ ''/'' @ fileName fsm in
      case os_Create F (h_currentFile fsm) path of
        Some e \<Rightarrow> (HandleErrorH, fsm\<lparr>h_err := Some e\<rparr>)
      | None \<Rightarrow>
          (let fsm1 = fsm\<lparr>disk := (disk fsm)(path \<mapsto> [])\<rparr> in
           case File_Write F (h_currentFile fsm) path of
             Some e \<Rightarrow> (HandleErrorH, fsm1\<lparr>h_err := Some e\<rparr>)
           | None \<Rightarrow>
               (ReceiveNextFile,
                fsm1\<lparr>disk := (disk fsm1)(path \<mapsto> fileContent fsm),
                     h_printed := h_printed fsm @
                       [''created file '' @ fileName fsm @ '' in '' @ storageDir fsm],
                     h_currentFile := h_currentFile fsm + 1\<rparr>)))"

definition HandleClientFSM_ReceiveNextFileState ::
  "HandleClientFSM \<Rightarrow> HandleClientState \<times> HandleClientFSM" where
  "HandleClientFSM_ReceiveNextFileState fsm =
     (if h_currentFile fsm = numFiles fsm then (Exit, fsm) else (ReadFileName, fsm))"

text \<open>\<^verbatim>\<open>fsm.err.Error()\<close> panics when \<^verbatim>\<open>fsm.err\<close> is nil.\<close>

definition HandleClientFSM_HandleErrorState ::
  "HandleClientFSM \<Rightarrow> panic + HandleClientState \<times> HandleClientFSM" where
  "HandleClientFSM_HandleErrorState fsm =
     (case h_err fsm of
        None \<Rightarrow> Inl NilDereference
      | Some e \<Rightarrow>
          (let fsm1 = (if Error e = ''EOF''
                       then fsm\<lparr>h_printed := h_printed fsm @ [''Error: Client closed connection'']\<rparr>
                       else fsm)
           in Inr (Exit, fsm1\<lparr>h_printed := h_printed fsm1 @ [''Error: '' @ Error e]\<rparr>)))"

definition enterH :: "HandleClientState \<times> HandleClientFSM \<Rightarrow> HandleClientFSM" where
  "enterH x = (snd x)\<lparr>h_currentState := fst x\<rparr>"

text \<open>One pass through the \<^verbatim>\<open>switch\<close> of the handler's \<^verbatim>\<open>Run\<close>. The loop's condition keeps
  the pass from ever starting in \<open>Exit\<close>, so the \<^verbatim>\<open>case Exit\<close> of the source is not run.\<close>

definition HandleClientFSM_iter :: "FileSys \<Rightarrow> HandleClientFSM \<Rightarrow> panic + HandleClientFSM" where
  "HandleClientFSM_iter F fsm =
     (case h_currentState fsm of
        ReadNumFiles \<Rightarrow> Inr (enterH (HandleClientFSM_ReadNumFilesState fsm))
      | ReadFileName \<Rightarrow> map_sum id enterH (HandleClientFSM_ReadFileNameState fsm)
      | ReadFileContent \<Rightarrow> map_sum id enterH (HandleClientFSM_ReadFileContentState fsm)
      | WriteFile \<Rightarrow> Inr (enterH (HandleClientFSM_WriteFileState F fsm))
      | ReceiveNextFile \<Rightarrow> Inr (enterH (HandleClientFSM_ReceiveNextFileState fsm))
      | HandleErrorH \<Rightarrow> map_sum id enterH (HandleClientFSM_HandleErrorState fsm)
      | Exit \<Rightarrow> Inr fsm)"

partial_function (option) HandleClientFSM_Run ::
  "FileSys \<Rightarrow> HandleClientFSM \<Rightarrow> (panic + HandleClientFSM) option" where
  "HandleClientFSM_Run F fsm =
     (if h_currentState fsm \<noteq> Exit then
        (case HandleClientFSM_iter F fsm of
           Inl p \<Rightarrow> Some (Inl p)
         | Inr fsm' \<Rightarrow> HandleClientFSM_Run F fsm')
      else Some (Inr fsm))"

text \<open>A connection on which every write succeeds.\<close>

definition no_fail :: "nat \<Rightarrow> error option" where
  "no_fail = (\<lambda>k. None)"

section \<open>Measures, invariants and sample worlds for the client's run\<close>

text \<open>\<open>n\<close> passes through the loop of the client's \<^verbatim>\<open>Run\<close>, stopping at a panic.\<close>

fun ClientFSM_iters :: "nat \<Rightarrow> World \<Rightarrow> ClientFSM \<Rightarrow> panic + ClientFSM" where
  "ClientFSM_iters 0 W fsm = Inr fsm"
| "ClientFSM_iters (Suc n) W fsm =
     (case ClientFSM_iter W fsm of Inl p \<Rightarrow> Inl p | Inr fsm' \<Rightarrow> ClientFSM_iters n W fsm')"

text \<open>
  The variant of the client's loop: what is left to do, counted in passes. Each file still
  to be attempted weighs 6, and the states of one attempt are ordered the way the machine
  goes through them.
\<close>

definition ClientFSM_rank :: "World \<Rightarrow> ClientFSM \<Rightarrow> nat" where
  "ClientFSM_rank W fsm =
     (let len = length (fileNames fsm);
          rem = nat (int len - currentFile fsm)
      in case currentState fsm of
           Terminate \<Rightarrow> 0
         | HandleFatalError \<Rightarrow> 1
         | SendNextFile \<Rightarrow> (if int len \<le> currentFile fsm then 2 else 6 * rem + 7)
         | HandleError \<Rightarrow> 6 * rem + 3
         | ReadAndSendFileData \<Rightarrow> 6 * rem + 4
         | SendFileName \<Rightarrow> 6 * rem + 5
         | OpenFile \<Rightarrow> 6 * rem + 6
         | SendFileCount \<Rightarrow> 6 * len + 8
         | ConnetServer \<Rightarrow> 6 * len + 9
         | ParseIP \<Rightarrow> 6 * len + 10
         | ValidateArgs \<Rightarrow> 6 * length (os_Args W) + 11
         | Initialization \<Rightarrow> 0)"

text \<open>
  The invariant of the client's loop: the cursor lies between 0 and the number of files,
  below it in the states that index the file list, and the writer exists once the
  connection does.
\<close>

definition ClientFSM_inv :: "ClientFSM \<Rightarrow> bool" where
  "ClientFSM_inv fsm =
     (0 \<le> currentFile fsm \<and> currentFile fsm \<le> int (length (fileNames fsm)) \<and>
      (case currentState fsm of
         Initialization \<Rightarrow> False
       | ValidateArgs \<Rightarrow> currentFile fsm = 0
       | ParseIP \<Rightarrow> fileNames fsm \<noteq> []
       | ConnetServer \<Rightarrow> fileNames fsm \<noteq> []
       | SendFileCount \<Rightarrow> fileNames fsm \<noteq> [] \<and> writer fsm \<noteq> None
       | OpenFile \<Rightarrow> currentFile fsm < int (length (fileNames fsm)) \<and> writer fsm \<noteq> None
       | SendFileName \<Rightarrow> currentFile fsm < int (length (fileNames fsm)) \<and> writer fsm \<noteq> None
       | ReadAndSendFileData \<Rightarrow>
           currentFile fsm < int (length (fileNames fsm)) \<and> writer fsm \<noteq> None
       | HandleError \<Rightarrow> currentFile fsm < int (length (fileNames fsm)) \<and> writer fsm \<noteq> None
       | SendNextFile \<Rightarrow> writer fsm \<noteq> None
       | HandleFatalError \<Rightarrow> True
       | Terminate \<Rightarrow> True))"

text \<open>\<open>within k W fsm Q\<close>: at most \<open>k\<close> passes take \<open>fsm\<close> to a state with \<open>Q\<close>.\<close>

definition within :: "nat \<Rightarrow> World \<Rightarrow> ClientFSM \<Rightarrow> (ClientFSM \<Rightarrow> bool) \<Rightarrow> bool" where
  "within k W fsm Q = (\<exists>n fsm'. n \<le> k \<and> ClientFSM_iters n W fsm = Inr fsm' \<and> Q fsm')"

text \<open>A writer between two sends on a connection that accepts every write.\<close>

definition good_writer :: "Writer \<Rightarrow> bool" where
  "good_writer w = ((\<forall>k. wfail w k = None) \<and> werr w = None \<and> wbuf w = [])"

text \<open>
  The invariant of a run on such a connection, from \<open>SendFileCount\<close> on, for the
  batch \<open>fs\<close>: the first write on the connection is the count of \<open>fs\<close>, and the files
  opened so far are the files of \<open>fs\<close> up to the cursor, each once and in order.
\<close>

definition ClientFSM_batch :: "string list \<Rightarrow> ClientFSM \<Rightarrow> bool" where
  "ClientFSM_batch fs fsm =
     (fileNames fsm = fs \<and>
      (\<exists>w. writer fsm = Some w \<and> good_writer w \<and>
         (if currentState fsm = SendFileCount then sent w = []
          else sent w \<noteq> [] \<and> hd (sent w) = PutUint32 (int32 (int (length fs))))) \<and>
      (case currentState fsm of
         SendFileCount \<Rightarrow> opened fsm = [] \<and> fs \<noteq> []
       | OpenFile \<Rightarrow> 0 \<le> currentFile fsm \<and> currentFile fsm < int (length fs)
           \<and> opened fsm = take (nat (currentFile fsm)) fs
       | SendFileName \<Rightarrow> 0 \<le> currentFile fsm \<and> currentFile fsm < int (length fs)
           \<and> opened fsm = take (Suc (nat (currentFile fsm))) fs
       | ReadAndSendFileData \<Rightarrow> 0 \<le> currentFile fsm \<and> currentFile fsm < int (length fs)
           \<and> opened fsm = take (Suc (nat (currentFile fsm))) fs
       | HandleError \<Rightarrow> 0 \<le> currentFile fsm \<and> currentFile fsm < int (length fs)
           \<and> opened fsm = take (Suc (nat (currentFile fsm))) fs
       | SendNextFile \<Rightarrow> 0 \<le> currentFile fsm \<and> opened fsm = take (nat (currentFile fsm)) fs
       | Terminate \<Rightarrow> opened fsm = fs
       | _ \<Rightarrow> False))"

text \<open>
  Sample worlds for \<^verbatim>\<open>client 127.0.0.1 9000 a.txt b.txt\<close>, where \<^verbatim>\<open>a.txt\<close> holds
  \<^verbatim>\<open>hi\<close>. In the first \<^verbatim>\<open>b.txt\<close> does not exist; in the second the connection breaks
  after its first write; in the third \<^verbatim>\<open>b.txt\<close> opens and cannot be read; in the fourth
  the connection breaks after its fourth write. \<open>at_OpenFile fs c w\<close> is a machine
  about to open file \<open>c\<close> of the batch \<open>fs\<close>.
\<close>

definition World_b_missing :: World where
  "World_b_missing =
     \<lparr>os_Args = [''127.0.0.1'', ''9000'', ''a.txt'', ''b.txt''],
      net_Dial = (\<lambda>a. None),
      conn_fail = (\<lambda>k. None),
      os_Open = (\<lambda>i p. if p = ''b.txt''
                        then Some (Err ''open b.txt: no such file or directory'') else None),
      File_Stat = (\<lambda>i p. Inr p),
      os_ReadFile = (\<lambda>i p. if p = ''b.txt''
                        then Inl (Err ''open b.txt: no such file or directory'')
                        else Inr [104, 105])\<rparr>"

definition World_broken_pipe :: World where
  "World_broken_pipe =
     \<lparr>os_Args = [''127.0.0.1'', ''9000'', ''a.txt'', ''b.txt''],
      net_Dial = (\<lambda>a. None),
      conn_fail = (\<lambda>k. if k = 1 then Some (Err ''write: broken pipe'') else None),
      os_Open = (\<lambda>i p. None),
      File_Stat = (\<lambda>i p. Inr p),
      os_ReadFile = (\<lambda>i p. Inr [104, 105])\<rparr>"

definition World_b_unreadable :: World where
  "World_b_unreadable =
     \<lparr>os_Args = [''127.0.0.1'', ''9000'', ''a.txt'', ''b.txt''],
      net_Dial = (\<lambda>a. None),
      conn_fail = (\<lambda>k. None),
      os_Open = (\<lambda>i p. None),
      File_Stat = (\<lambda>i p. Inr p),
      os_ReadFile = (\<lambda>i p. if p = ''b.txt'' then Inl (Err ''read b.txt: is a directory'')
                        else Inr [104, 105])\<rparr>"

definition World_broken_pipe_late :: World where
  "World_broken_pipe_late =
     \<lparr>os_Args = [''127.0.0.1'', ''9000'', ''a.txt'', ''b.txt''],
      net_Dial = (\<lambda>a. None),
      conn_fail = (\<lambda>k. if k = 4 then Some (Err ''write: broken pipe'') else None),
      os_Open = (\<lambda>i p. None),
      File_Stat = (\<lambda>i p. Inr p),
      os_ReadFile = (\<lambda>i p. Inr [104, 105])\<rparr>"

definition at_OpenFile :: "string list \<Rightarrow> int \<Rightarrow> Writer \<Rightarrow> ClientFSM" where
  "at_OpenFile fs c w =
     NewClientFSM\<lparr>currentState := OpenFile, fileNames := fs, currentFile := c,
                  con := Some Connected, writer := Some w\<rparr>"

section \<open>The segments of a batch\<close>

text \<open>
  What \<open>sendBytes\<close> writes to a connection that accepts every write: the 4 bytes of the
  length, then the payload in chunks of \<open>bufferSize\<close> bytes, the last one shorter
  (\<open>blob\<close>). A file unit is the blob of the name and the blob of the content, and a
  batch is the 4 bytes of the count and the units of its files. \<open>HandleClientFSM_iters\<close>
  is \<open>n\<close> passes through the loop of the handler's \<^verbatim>\<open>Run\<close>.
\<close>

function chunks :: "byte list \<Rightarrow> byte list list" where
  "chunks d = (if d = [] then [] else take bufferSize d # chunks (drop bufferSize d))"
  by pat_completeness auto
termination
  by (relation "measure length") (auto simp: bufferSize_def)

declare chunks.simps [simp del]

definition blob :: "byte list \<Rightarrow> byte list list" where
  "blob d = PutUint32 (int32 (int (length d))) # chunks d"

definition unit_segments :: "byte list \<times> byte list \<Rightarrow> byte list list" where
  "unit_segments u = blob (fst u) @ blob (snd u)"

definition batch_segments :: "(byte list \<times> byte list) list \<Rightarrow> byte list list" where
  "batch_segments fs = PutUint32 (int32 (int (length fs))) # concat (map unit_segments fs)"

fun HandleClientFSM_iters :: "nat \<Rightarrow> FileSys \<Rightarrow> HandleClientFSM \<Rightarrow> panic + HandleClientFSM" where
  "HandleClientFSM_iters 0 F fsm = Inr fsm"
| "HandleClientFSM_iters (Suc n) F fsm =
     (case HandleClientFSM_iter F fsm of
        Inl p \<Rightarrow> Inl p
      | Inr fsm' \<Rightarrow> HandleClientFSM_iters n F fsm')"

text \<open>A file system on which every create and every write succeeds.\<close>

definition ok_FileSys :: FileSys where
  "ok_FileSys = \<lparr>os_Create = (\<lambda>i p. None), File_Write = (\<lambda>i p. None)\<rparr>"

section \<open>Properties of the codec\<close>

lemma drop_take_drop: "n \<le> m \<Longrightarrow> drop n (take m xs) @ drop m xs = drop n xs"
  by (induction xs arbitrary: n m) (auto simp: take_Cons' drop_Cons')

lemma take_drop_take_drop: "n \<le> m \<Longrightarrow> take n xs @ drop n (take m xs) @ drop m xs = xs"
  by (simp add: drop_take_drop)

lemma Uint32_PutUint32_exact: "Uint32 (PutUint32 v) = v"
  unfolding Uint32_def PutUint32_def
  apply simp
  apply (rule bit_word_eqI)
  subgoal for n
    apply (cases "n < 8"; cases "n < 16"; cases "n < 24")
           apply (auto simp add: bit_simps)
    done
  done

lemma Uint32_PutUint32: "Uint32 (PutUint32 v @ rest) = v"
proof -
  have "Uint32 (PutUint32 v @ rest) = Uint32 (PutUint32 v)"
    by (simp add: Uint32_def PutUint32_def)
  then show ?thesis by (simp add: Uint32_PutUint32_exact)
qed

lemma length_PutUint32 [simp]: "length (PutUint32 v) = 4"
  by (simp add: PutUint32_def)

lemma uint_int32: "0 \<le> n \<Longrightarrow> n < 2 ^ 32 \<Longrightarrow> uint (int32 n) = n"
  by (simp add: int32_def uint_word_of_int take_bit_eq_mod)

lemma Write_Flush_empty:
  assumes "wbuf w = []" and "Writer_Write w p = (None, w1)" and "Writer_Flush w1 = (None, w2)"
    and "p \<noteq> []"
  shows "sent w2 = sent w @ [p] \<and> wbuf w2 = [] \<and> werr w2 = None \<and> wfail w2 = wfail w"
  using assms
  by (auto simp: Writer_Write_def Writer_Flush_def conn_Write_def
      split: option.splits if_splits prod.splits)

lemma sendInt_sent:
  assumes "wbuf w = []" and "sendInt w n = (None, w')"
  shows "sent w' = sent w @ [PutUint32 (int32 n)] \<and> wbuf w' = [] \<and> werr w' = None
         \<and> wfail w' = wfail w"
proof -
  obtain eo w1 where w1: "Writer_Write w (PutUint32 (int32 n)) = (eo, w1)"
    by (cases "Writer_Write w (PutUint32 (int32 n))")
  with assms(2) have eo: "eo = None" and fl: "Writer_Flush w1 = (None, w')"
    by (auto simp: sendInt_def Let_def split: option.splits)
  have "PutUint32 (int32 n) \<noteq> []" by (simp add: PutUint32_def)
  with Write_Flush_empty [OF assms(1) w1 [unfolded eo] fl] show ?thesis by simp
qed

lemma sendBytes_loop_sent:
  assumes "sendBytes_loop w data start = ((k, None), w')" and "wbuf w = []"
  shows "\<exists>ws. sent w' = sent w @ ws \<and> concat ws = drop start data \<and> wbuf w' = []
           \<and> k = int (length data) \<and> (\<forall>c \<in> set ws. length c \<le> bufferSize \<and> c \<noteq> [])"
  using assms
proof (induction "length data - start" arbitrary: w start rule: less_induct)
  case less
  show ?case
  proof (cases "start < length data")
    case False
    with less.prems show ?thesis
      by (simp add: sendBytes_loop.simps)
  next
    case True
    define e where "e = (if start + bufferSize > length data then length data else start + bufferSize)"
    define chunk where "chunk = take (e - start) (drop start data)"
    have chunk_ne: "chunk \<noteq> []" and chunk_le: "length chunk \<le> bufferSize"
      using True by (auto simp: chunk_def e_def bufferSize_def)
    obtain eo w1 where w1: "Writer_Write w chunk = (eo, w1)"
      by (cases "Writer_Write w chunk")
    obtain eo2 w2 where w2: "Writer_Flush w1 = (eo2, w2)"
      by (cases "Writer_Flush w1")
    from less.prems(1) True w1 w2 have eo: "eo = None" and eo2: "eo2 = None"
      and rec: "sendBytes_loop w2 data (start + bufferSize) = ((k, None), w')"
      by (auto simp: sendBytes_loop.simps [of w data start] Let_def e_def chunk_def
          split: option.splits)
    from Write_Flush_empty [OF less.prems(2) w1 [unfolded eo] w2 [unfolded eo2] chunk_ne]
    have s2: "sent w2 = sent w @ [chunk]" and b2: "wbuf w2 = []" by simp_all
    have "length data - (start + bufferSize) < length data - start"
      using True by (simp add: bufferSize_def)
    from less.hyps [OF this rec b2] obtain ws where
      ws: "sent w' = sent w2 @ ws" "concat ws = drop (start + bufferSize) data" "wbuf w' = []"
        "k = int (length data)" "\<forall>c \<in> set ws. length c \<le> bufferSize \<and> c \<noteq> []"
      by blast
    have "chunk @ drop (start + bufferSize) data = drop start data"
    proof (cases "start + bufferSize > length data")
      case True
      then show ?thesis by (simp add: chunk_def e_def)
    next
      case False
      then have "chunk = take bufferSize (drop start data)" by (simp add: chunk_def e_def)
      moreover have "drop (start + bufferSize) data = drop bufferSize (drop start data)"
        by (simp add: add.commute)
      ultimately show ?thesis by (metis append_take_drop_id)
    qed
    with ws s2 chunk_ne chunk_le show ?thesis
      by (intro exI [of _ "chunk # ws"]) simp
  qed
qed

lemma sendBytes_sent:
  assumes "sendBytes w data = ((k, None), w')" and "wbuf w = []"
  shows "\<exists>ws. sent w' = sent w @ PutUint32 (int32 (int (length data))) # ws \<and> concat ws = data
           \<and> wbuf w' = [] \<and> k = int (length data)
           \<and> (\<forall>c \<in> set ws. length c \<le> bufferSize \<and> c \<noteq> [])"
proof -
  obtain eo w1 where w1: "sendInt w (int (length data)) = (eo, w1)"
    by (cases "sendInt w (int (length data))")
  with assms(1) have eo: "eo = None" and lp: "sendBytes_loop w1 data 0 = ((k, None), w')"
    by (auto simp: sendBytes_def split: option.splits)
  from sendInt_sent [OF assms(2) w1 [unfolded eo]]
  have s1: "sent w1 = sent w @ [PutUint32 (int32 (int (length data)))]" and b1: "wbuf w1 = []"
    by simp_all
  from sendBytes_loop_sent [OF lp b1] s1 show ?thesis by auto
qed

lemma Reader_Read_stream:
  assumes "Reader_Read r n = ((bs, eo), r')"
  shows "stream r = bs @ stream r' \<and> length bs \<le> n \<and> rend r' = rend r
         \<and> (eo \<noteq> None \<longrightarrow> 0 < n \<and> stream r = [] \<and> eo = Some (rend r))"
  using assms
  by (auto simp: Reader_Read_def conn_Read_def stream_def take_drop_take_drop
      split: if_splits list.splits option.splits)

lemma Reader_Read_whole:
  assumes "header_whole r"
  shows "\<exists>r'. Reader_Read r 4 = ((take 4 (stream r), None), r') \<and> stream r' = drop 4 (stream r)
            \<and> 4 \<le> length (stream r) \<and> rend r' = rend r"
  using assms
  by (auto simp: Reader_Read_def conn_Read_def stream_def header_whole_def defaultBufSize_def
      drop_take_drop split: if_splits list.splits option.splits)

lemma receiveBytes_loop_stream:
  assumes "nat (sz - int (length got)) \<le> length (stream r)"
  shows "\<exists>r'. receiveBytes_loop r sz got =
            ((got @ take (nat (sz - int (length got))) (stream r), None), r')
          \<and> stream r' = drop (nat (sz - int (length got))) (stream r) \<and> rend r' = rend r"
  using assms
proof (induction r sz got rule: receiveBytes_loop.induct)
  case (1 reader size' got)
  show ?case
  proof (cases "int (length got) < size'")
    case False
    then show ?thesis by (simp add: receiveBytes_loop.simps)
  next
    case True
    define remaining where "remaining = size' - int (length got)"
    define readSize where "readSize = (if remaining < int bufferSize then remaining else int bufferSize)"
    have rs: "0 < nat readSize" "nat readSize \<le> nat remaining"
      using True by (auto simp: readSize_def remaining_def bufferSize_def)
    obtain bs eo r1 where rd: "Reader_Read reader (nat readSize) = ((bs, eo), r1)"
      by (metis prod.exhaust)
    from Reader_Read_stream [OF rd] have st: "stream reader = bs @ stream r1"
      and len: "length bs \<le> nat readSize" and re: "rend r1 = rend reader"
      and er: "eo \<noteq> None \<longrightarrow> stream reader = []" by auto
    from "1.prems" True have "stream reader \<noteq> []" by auto
    with er have eo: "eo = None" by auto
    have pre: "nat (size' - int (length (got @ bs))) \<le> length (stream r1)"
      using "1.prems" st len rs by (auto simp: remaining_def)
    from "1.IH" [OF True remaining_def readSize_def rd [unfolded eo, symmetric] refl refl pre]
    obtain r' where r': "receiveBytes_loop r1 size' (got @ bs) =
        (((got @ bs) @ take (nat (size' - int (length (got @ bs)))) (stream r1), None), r')"
      "stream r' = drop (nat (size' - int (length (got @ bs)))) (stream r1)" "rend r' = rend r1"
      by blast
    have "receiveBytes_loop reader size' got =
        (case Reader_Read reader (nat readSize) of
           ((bs, Some e), r) \<Rightarrow> (([], Some e), r)
         | ((bs, None), r) \<Rightarrow> receiveBytes_loop r size' (got @ bs))"
      using True
      by (subst receiveBytes_loop.simps) (simp add: Let_def readSize_def remaining_def)
    then have unf: "receiveBytes_loop reader size' got = receiveBytes_loop r1 size' (got @ bs)"
      by (simp add: rd eo)
    have lb: "length bs \<le> nat (size' - int (length got))"
      using len rs by (simp add: remaining_def)
    have n1: "nat (size' - int (length (got @ bs))) = nat (size' - int (length got)) - length bs"
      by simp
    show ?thesis
      using r' lb re unfolding unf n1 st by simp
  qed
qed


lemma receiveInt_whole:
  assumes "header_whole r"
  shows "\<exists>r'. receiveInt r = ((uint (Uint32 (take 4 (stream r))), None), r')
            \<and> stream r' = drop 4 (stream r) \<and> rend r' = rend r"
proof -
  from Reader_Read_whole [OF assms] obtain r' where
    rd: "Reader_Read r 4 = ((take 4 (stream r), None), r')" and st: "stream r' = drop 4 (stream r)"
    and len: "4 \<le> length (stream r)" and re: "rend r' = rend r" by blast
  from len have "length (take 4 (stream r)) = 4" by simp
  with rd st re show ?thesis by (simp add: receiveInt_def)
qed

lemma receiveInt_range:
  assumes "receiveInt r = ((v, None), r')"
  shows "0 \<le> v \<and> v < 2 ^ 32"
proof -
  have "uint (w :: 32 word) < 2 ^ 32" for w
    using uint_bounded [of w] by simp
  with assms show ?thesis
    by (auto simp: receiveInt_def Let_def split: prod.splits option.splits)
qed

lemma Writer_Write_ok:
  assumes "wfail w = (\<lambda>k. None)" and "werr w = None" and "wbuf w = []"
  shows "\<exists>w1. Writer_Write w p = (None, w1) \<and> wfail w1 = (\<lambda>k. None) \<and> werr w1 = None"
  using assms
  by (cases "length p \<le> defaultBufSize") (simp_all add: Writer_Write_def conn_Write_def)

lemma Writer_Flush_ok:
  assumes "wfail w = (\<lambda>k. None)" and "werr w = None"
  shows "\<exists>w2. Writer_Flush w = (None, w2)"
  using assms
  by (cases "wbuf w = []") (simp_all add: Writer_Flush_def conn_Write_def)

lemma sendInt_ok:
  assumes "wfail w = (\<lambda>k. None)" and "werr w = None" and "wbuf w = []"
  shows "\<exists>w1. sendInt w n = (None, w1)"
proof -
  obtain w1 where w1: "Writer_Write w (PutUint32 (int32 n)) = (None, w1)"
    and w1p: "wfail w1 = (\<lambda>k. None)" "werr w1 = None"
    using Writer_Write_ok [OF assms] by blast
  from Writer_Flush_ok [OF w1p] w1 show ?thesis by (simp add: sendInt_def)
qed

lemma sendInt_good:
  assumes "good_writer w"
  shows "\<exists>w'. sendInt w n = (None, w') \<and> good_writer w' \<and> sent w' = sent w @ [PutUint32 (int32 n)]"
proof -
  from assms have a: "wfail w = (\<lambda>k. None)" "werr w = None" "wbuf w = []"
    by (auto simp: good_writer_def)
  from sendInt_ok [OF a] obtain w' where w': "sendInt w n = (None, w')" by blast
  from sendInt_sent [OF a(3) w'] a(1) w' show ?thesis by (auto simp: good_writer_def)
qed

lemma sendBytes_loop_good:
  assumes "good_writer w"
  shows "\<exists>w'. sendBytes_loop w data start = ((int (length data), None), w') \<and> good_writer w'
           \<and> (\<exists>ws. sent w' = sent w @ ws)"
  using assms
proof (induction "length data - start" arbitrary: w start rule: less_induct)
  case less
  from less.prems have a: "wfail w = (\<lambda>k. None)" "werr w = None" "wbuf w = []"
    by (auto simp: good_writer_def)
  show ?case
  proof (cases "start < length data")
    case False
    with less.prems show ?thesis by (simp add: sendBytes_loop.simps)
  next
    case True
    define e where "e = (if start + bufferSize > length data then length data else start + bufferSize)"
    define chunk where "chunk = take (e - start) (drop start data)"
    have chunk_ne: "chunk \<noteq> []"
      using True by (auto simp: chunk_def e_def bufferSize_def)
    obtain w1 where w1: "Writer_Write w chunk = (None, w1)"
      and w1p: "wfail w1 = (\<lambda>k. None)" "werr w1 = None"
      using Writer_Write_ok [OF a] by blast
    obtain w2 where w2: "Writer_Flush w1 = (None, w2)"
      using Writer_Flush_ok [OF w1p] by blast
    from Write_Flush_empty [OF a(3) w1 w2 chunk_ne] a(1)
    have p2: "good_writer w2" and s2: "sent w2 = sent w @ [chunk]"
      by (simp_all add: good_writer_def)
    have "length data - (start + bufferSize) < length data - start"
      using True by (simp add: bufferSize_def)
    from less.hyps [OF this p2] obtain w' ws where
      "sendBytes_loop w2 data (start + bufferSize) = ((int (length data), None), w')"
      "good_writer w'" "sent w' = sent w2 @ ws" by blast
    then show ?thesis
      using True w1 w2 s2
      by (simp add: sendBytes_loop.simps [of w data start] Let_def e_def chunk_def)
  qed
qed

lemma sendBytes_good:
  assumes "good_writer w"
  shows "\<exists>w'. sendBytes w data = ((int (length data), None), w') \<and> good_writer w'
           \<and> (\<exists>ws. sent w' = sent w @ ws)"
proof -
  from sendInt_good [OF assms] obtain w1 where
    w1: "sendInt w (int (length data)) = (None, w1)" "good_writer w1"
      "sent w1 = sent w @ [PutUint32 (int32 (int (length data)))]" by blast
  from sendBytes_loop_good [OF w1(2)] obtain w' ws where
    "sendBytes_loop w1 data 0 = ((int (length data), None), w')" "good_writer w'"
    "sent w' = sent w1 @ ws" by blast
  with w1 show ?thesis by (simp add: sendBytes_def)
qed

lemma sendBytes_ok:
  "\<exists>w'. sendBytes (NewWriter no_fail) data = ((int (length data), None), w')"
proof -
  have "good_writer (NewWriter no_fail)"
    by (simp add: good_writer_def NewWriter_def no_fail_def)
  from sendBytes_good [OF this] show ?thesis by blast
qed

lemma sendBytes_loop_chunks:
  assumes "good_writer w" and "start \<le> length data"
  shows "\<exists>w'. sendBytes_loop w data start = ((int (length data), None), w') \<and> good_writer w'
           \<and> sent w' = sent w @ chunks (drop start data)"
  using assms
proof (induction "length data - start" arbitrary: w start rule: less_induct)
  case less
  from less.prems have a: "wfail w = (\<lambda>k. None)" "werr w = None" "wbuf w = []"
    by (auto simp: good_writer_def)
  show ?case
  proof (cases "start < length data")
    case False
    with less.prems show ?thesis by (simp add: sendBytes_loop.simps chunks.simps)
  next
    case True
    define e where "e = (if start + bufferSize > length data then length data else start + bufferSize)"
    define chunk where "chunk = take (e - start) (drop start data)"
    have chunk_ne: "chunk \<noteq> []"
      using True by (auto simp: chunk_def e_def bufferSize_def)
    have chunk_eq: "chunk = take bufferSize (drop start data)"
      by (auto simp: chunk_def e_def)
    obtain w1 where w1: "Writer_Write w chunk = (None, w1)"
      and w1p: "wfail w1 = (\<lambda>k. None)" "werr w1 = None"
      using Writer_Write_ok [OF a] by blast
    obtain w2 where w2: "Writer_Flush w1 = (None, w2)"
      using Writer_Flush_ok [OF w1p] by blast
    from Write_Flush_empty [OF a(3) w1 w2 chunk_ne] a(1)
    have p2: "good_writer w2" and s2: "sent w2 = sent w @ [chunk]"
      by (simp_all add: good_writer_def)
    show ?thesis
    proof (cases "start + bufferSize \<le> length data")
      case le: True
      have "length data - (start + bufferSize) < length data - start"
        using True by (simp add: bufferSize_def)
      from less.hyps [OF this p2 le] obtain w' where
        w': "sendBytes_loop w2 data (start + bufferSize) = ((int (length data), None), w')"
        "good_writer w'" "sent w' = sent w2 @ chunks (drop (start + bufferSize) data)" by blast
      have "chunks (drop start data) = chunk # chunks (drop (start + bufferSize) data)"
        using True by (subst chunks.simps) (simp add: chunk_eq add.commute)
      with w' s2 True w1 w2 show ?thesis
        by (simp add: sendBytes_loop.simps [of w data start] Let_def e_def chunk_def)
    next
      case gt: False
      have "sendBytes_loop w2 data (start + bufferSize) = ((int (length data), None), w2)"
        using gt by (simp add: sendBytes_loop.simps)
      moreover have "chunks (drop start data) = [chunk]"
        using True gt by (subst chunks.simps) (simp add: chunk_eq chunks.simps)
      ultimately show ?thesis
        using p2 s2 True w1 w2
        by (simp add: sendBytes_loop.simps [of w data start] Let_def e_def chunk_def)
    qed
  qed
qed

lemma sendBytes_blob:
  assumes "good_writer w"
  shows "\<exists>w'. sendBytes w data = ((int (length data), None), w') \<and> good_writer w'
           \<and> sent w' = sent w @ blob data"
proof -
  from sendInt_good [OF assms] obtain w1 where
    w1: "sendInt w (int (length data)) = (None, w1)" "good_writer w1"
      "sent w1 = sent w @ [PutUint32 (int32 (int (length data)))]" by blast
  from sendBytes_loop_chunks [OF w1(2), of 0 data] obtain w' where
    "sendBytes_loop w1 data 0 = ((int (length data), None), w')" "good_writer w'"
    "sent w' = sent w1 @ chunks data" by auto
  with w1 show ?thesis by (simp add: sendBytes_def blob_def)
qed

lemma receiveBytes_loop_chunks:
  assumes "rbuf r = []" and "rconn r = chunks d @ rest" and "sz = int (length got + length d)"
  shows "\<exists>r'. receiveBytes_loop r sz got = ((got @ d, None), r')
           \<and> rbuf r' = [] \<and> rconn r' = rest \<and> rend r' = rend r"
  using assms
proof (induction d arbitrary: r got rule: chunks.induct)
  case (1 d)
  show ?case
  proof (cases "d = []")
    case True
    with "1.prems" show ?thesis by (simp add: receiveBytes_loop.simps chunks.simps)
  next
    case False
    define c where "c = take bufferSize d"
    have ch: "chunks d = c # chunks (drop bufferSize d)"
      using False by (subst chunks.simps) (simp add: c_def)
    define n where "n = nat (if sz - int (length got) < int bufferSize
                             then sz - int (length got) else int bufferSize)"
    have bpos: "0 < bufferSize" by (simp add: bufferSize_def)
    have n: "n = length c" "0 < n"
      using False "1.prems"(3) bpos by (auto simp: n_def c_def min_def)
    define r1 where "r1 = r\<lparr>rbuf := [], rconn := chunks (drop bufferSize d) @ rest\<rparr>"
    have rd: "Reader_Read r n = ((c, None), r1)"
    proof (cases "defaultBufSize \<le> n")
      case True
      with n "1.prems"(1,2) show ?thesis
        by (simp add: Reader_Read_def conn_Read_def ch r1_def)
    next
      case False
      with n "1.prems"(1,2) show ?thesis
        by (simp add: Reader_Read_def conn_Read_def ch r1_def)
    qed
    have "receiveBytes_loop r sz got =
        (case Reader_Read r n of
           ((bs, Some e), r') \<Rightarrow> (([], Some e), r')
         | ((bs, None), r') \<Rightarrow> receiveBytes_loop r' sz (got @ bs))"
      using False "1.prems"(3)
      by (subst receiveBytes_loop.simps) (simp add: Let_def n_def)
    then have un: "receiveBytes_loop r sz got = receiveBytes_loop r1 sz (got @ c)"
      by (simp add: rd)
    have "sz = int (length (got @ c) + length (drop bufferSize d))"
      using "1.prems"(3) by (simp add: c_def)
    from "1.IH" [OF False, of r1 "got @ c"] this
    obtain r' where "receiveBytes_loop r1 sz (got @ c) = (((got @ c) @ drop bufferSize d, None), r')"
      "rbuf r' = []" "rconn r' = rest" "rend r' = rend r1"
      by (auto simp: r1_def)
    then show ?thesis unfolding un by (simp add: c_def r1_def)
  qed
qed

lemma receiveBytes_blob:
  assumes "rbuf r = []" and "rconn r = blob d @ rest" and "length d < 2 ^ 32"
  shows "\<exists>r'. receiveBytes r = Inr ((d, None), r')
           \<and> rbuf r' = [] \<and> rconn r' = rest \<and> rend r' = rend r"
proof -
  define r1 where "r1 = r\<lparr>rbuf := [], rconn := chunks d @ rest\<rparr>"
  have u: "uint (int32 (int (length d))) = int (length d)"
    using assms(3) by (intro uint_int32) auto
  have "Reader_Read r 4 = ((PutUint32 (int32 (int (length d))), None), r1)"
    using assms(1,2)
    by (simp add: Reader_Read_def conn_Read_def blob_def defaultBufSize_def r1_def)
  then have ri: "receiveInt r = ((int (length d), None), r1)"
    by (simp add: receiveInt_def Uint32_PutUint32_exact u)
  from receiveBytes_loop_chunks [of r1 d rest "int (length d)" "[]"]
  obtain r' where "receiveBytes_loop r1 (int (length d)) [] = ((d, None), r')"
    "rbuf r' = []" "rconn r' = rest" "rend r' = rend r"
    by (auto simp: r1_def)
  with ri show ?thesis by (simp add: receiveBytes_def)
qed

lemma uint_ucast_byte: "uint (ucast (c::byte) :: 32 word) = uint c"
  by (simp add: uint_up_ucast is_up)

lemma uint_push_bit_byte: "uint (push_bit n (ucast (c::byte)) :: 32 word) = uint c * 2 ^ n" if "n \<le> 24" for n
proof -
  have "uint c < 2 ^ 8" using uint_bounded [of c] by simp
  then have "uint c * 2 ^ n < 2 ^ 8 * 2 ^ n" by simp
  also have "\<dots> = 2 ^ (8 + n)" by (simp add: power_add)
  also have "\<dots> \<le> (2::int) ^ 32" using that by (intro power_increasing) auto
  finally have lt: "uint c * 2 ^ n < 2 ^ 32" .
  have "uint (push_bit n (ucast c) :: 32 word) = take_bit 32 (push_bit n (uint c))"
    by (simp add: unsigned_push_bit_eq uint_ucast_byte)
  also have "\<dots> = uint c * 2 ^ n"
    using lt by (simp add: push_bit_eq_mult take_bit_int_eq_self)
  finally show ?thesis .
qed

lemma Uint32_or_eq_add: "((ucast (d::byte) :: 32 word) OR push_bit 8 (ucast (c::byte)) OR push_bit 16 (ucast (b::byte)) OR push_bit 24 (ucast (a::byte)))
   = ucast d + (push_bit 8 (ucast c) + (push_bit 16 (ucast b) + push_bit 24 (ucast a)))"
proof -
  have 1: "push_bit 16 (ucast b) + push_bit 24 (ucast a) = (push_bit 16 (ucast b) OR push_bit 24 (ucast a) :: 32 word)"
    by (rule disjunctive_add) (auto simp: bit_simps dest: bit_imp_le_length)
  have 2: "push_bit 8 (ucast c) + (push_bit 16 (ucast b) OR push_bit 24 (ucast a) :: 32 word)
     = push_bit 8 (ucast c) OR (push_bit 16 (ucast b) OR push_bit 24 (ucast a))"
    by (rule disjunctive_add) (auto simp: bit_simps dest: bit_imp_le_length)
  have 3: "ucast d + (push_bit 8 (ucast c) OR (push_bit 16 (ucast b) OR push_bit 24 (ucast a)) :: 32 word)
     = ucast d OR (push_bit 8 (ucast c) OR (push_bit 16 (ucast b) OR push_bit 24 (ucast a)))"
    by (rule disjunctive_add) (auto simp: bit_simps dest: bit_imp_le_length)
  show ?thesis by (simp only: 1 2 3 ac_simps)
qed

lemma uint_Uint32_or: "uint ((ucast (d::byte) :: 32 word) OR push_bit 8 (ucast (c::byte)) OR push_bit 16 (ucast (b::byte)) OR push_bit 24 (ucast (a::byte)))
   = uint a * 2 ^ 24 + uint b * 2 ^ 16 + uint c * 2 ^ 8 + uint d"
proof -
  have A: "uint a < 256" "uint b < 256" "uint c < 256" "uint d < 256" "0 \<le> uint a" "0 \<le> uint b" "0 \<le> uint c" "0 \<le> uint d"
    using uint_bounded [of a] uint_bounded [of b] uint_bounded [of c] uint_bounded [of d] by simp_all
  have "uint (ucast d + (push_bit 8 (ucast c) + (push_bit 16 (ucast b) + push_bit 24 (ucast a))) :: 32 word)
    = (uint d + (uint c * 2 ^ 8 + (uint b * 2 ^ 16 + uint a * 2 ^ 24))) mod 2 ^ 32"
    by (simp add: uint_word_ariths uint_ucast_byte uint_push_bit_byte mod_simps)
  also have "\<dots> = uint d + (uint c * 2 ^ 8 + (uint b * 2 ^ 16 + uint a * 2 ^ 24))"
    using A by (intro mod_pos_pos_trivial) auto
  finally show ?thesis unfolding Uint32_or_eq_add by simp
qed

lemma be32_value:
  "uint (Uint32 (a # b # c # d # rest)) = uint a * 2 ^ 24 + uint b * 2 ^ 16 + uint c * 2 ^ 8 + uint d"
  using uint_Uint32_or [of d c b a] by (simp add: Uint32_def)

lemmas codec_defs = sendInt_def sendBytes_def Writer_Write_def Writer_Flush_def conn_Write_def
  NewWriter_def no_fail_def PutUint32_def int32_def defaultBufSize_def bufferSize_def
  receiveInt_def receiveBytes_def Reader_Read_def conn_Read_def NewReader_def Uint32_def

subsection \<open>Integers through the codec\<close>

text \<open>
  With the 4 bytes at hand for one read, an integer comes back as it was sent: for every
  \<open>n\<close> in \<open>[0, 2^31 - 1]\<close>, a writer with an empty buffer on which \<open>sendInt\<close> returns no
  error, and a reader that has those bytes next in its stream and whole for its next
  read, \<open>receiveInt\<close> returns \<open>n\<close> and leaves the reader at what followed.
\<close>

lemma sendInt_receiveInt_roundtrip:
  assumes "0 \<le> n" and "n \<le> 2 ^ 31 - 1"
    and "wbuf w = []" and "sendInt w n = (None, w')"
    and "header_whole r" and "stream r = concat (drop (length (sent w)) (sent w')) @ later"
  shows "\<exists>r'. receiveInt r = ((n, None), r') \<and> stream r' = later"
proof -
  from sendInt_sent [OF assms(3,4)] assms(6)
  have st: "stream r = PutUint32 (int32 n) @ later" by simp
  have "uint (int32 n) = n" using assms(1,2) by (intro uint_int32) auto
  with receiveInt_whole [OF assms(5)] show ?thesis
    unfolding st by (auto simp: Uint32_PutUint32_exact)
qed

lemma sendInt_receiveInt_roundtrip_whole:
  "(0::int) \<le> 258 \<and> (258::int) \<le> 2 ^ 31 - 1
   \<and> sendInt (NewWriter no_fail) 258
       = (None, \<lparr>wbuf = [], werr = None, sent = [[0, 0, 1, 2]], wfail = no_fail\<rparr>)
   \<and> header_whole (NewReader [[0, 0, 1, 2, 9]] EOF)
   \<and> (\<exists>r'. receiveInt (NewReader [[0, 0, 1, 2, 9]] EOF) = ((258, None), r') \<and> stream r' = [9])"
proof -
  let ?w = "NewWriter no_fail"
  let ?w' = "\<lparr>wbuf = [], werr = None, sent = [[0, 0, 1, 2]], wfail = no_fail\<rparr>"
  let ?r = "NewReader [[0, 0, 1, 2, 9]] EOF"
  have s: "sendInt ?w 258 = (None, ?w')" by (simp add: codec_defs)
  have b: "wbuf ?w = []" by (simp add: NewWriter_def)
  have h: "header_whole ?r" by (simp add: header_whole_def NewReader_def)
  have st: "stream ?r = concat (drop (length (sent ?w)) (sent ?w')) @ [9]"
    by (simp add: stream_def NewReader_def NewWriter_def)
  from sendInt_receiveInt_roundtrip [OF _ _ b s h st] s h show ?thesis by simp
qed

text \<open>
  Claim C6 says that for every integer \<open>n\<close> in the range \<open>[0, 2^31 - 1]\<close>, encoding \<open>n\<close>
  with \<open>sendInt\<close> and then decoding the resulting 4 bytes with \<open>receiveInt\<close> yields
  \<open>n\<close>. \<open>receiveInt\<close> makes one \<open>Read\<close> and decodes whatever it returned, padded with
  zero bytes. \<open>sendInt\<close> of 258 writes \<open>00 00 01 02\<close>; when the stream delivers these
  as \<open>00 00\<close> and then \<open>01 02\<close>, or when the reader's buffer ends after the first two
  of them, \<open>receiveInt\<close> returns 0 without an error and leaves \<open>01 02\<close> unread.
\<close>

theorem sendInt_receiveInt_split:
  "sendInt (NewWriter no_fail) 258
     = (None, \<lparr>wbuf = [], werr = None, sent = [[0, 0, 1, 2]], wfail = no_fail\<rparr>)
   \<and> concat [[0, 0], [1, 2 :: byte]] = concat [[0, 0, 1, 2]]
   \<and> receiveInt (NewReader [[0, 0], [1, 2]] EOF)
     = ((0, None), \<lparr>rbuf = [], rconn = [[1, 2]], rend = EOF\<rparr>)
   \<and> receiveInt \<lparr>rbuf = [0, 0], rconn = [[1, 2]], rend = EOF\<rparr>
     = ((0, None), \<lparr>rbuf = [], rconn = [[1, 2]], rend = EOF\<rparr>)"
  by (simp add: codec_defs)

text \<open>
  Claim C10. The value \<open>receiveInt\<close> returns on success is non-negative: it lies in
  \<open>[0, 2^32 - 1]\<close>, since the bytes are decoded as an unsigned 32-bit value widened to
  \<open>int\<close>. So \<open>receiveBytes\<close> never makes a slice of negative length: it does not panic,
  for any state of the reader.
\<close>

theorem receiveInt_nonnegative:
  "(\<forall>v r'. receiveInt r = ((v, None), r') \<longrightarrow> 0 \<le> v \<and> v \<le> 2 ^ 32 - 1)
   \<and> (\<forall>p. receiveBytes r \<noteq> Inl p)"
proof -
  have "0 \<le> v \<and> v \<le> 2 ^ 32 - 1" if "receiveInt r = ((v, None), r')" for v r'
    using receiveInt_range [OF that] by simp
  moreover have "receiveBytes r \<noteq> Inl p" for p
  proof (cases "receiveInt r")
    case (Pair ve r1)
    then show ?thesis
      using receiveInt_range [of r "fst ve" r1]
      by (cases ve) (auto simp: receiveBytes_def split: option.splits)
  qed
  ultimately show ?thesis by blast
qed

theorem receiveInt_nonnegative_witness:
  "receiveInt (NewReader [[255, 255, 255, 255]] EOF)
     = ((4294967295, None), \<lparr>rbuf = [], rconn = [], rend = EOF\<rparr>)
   \<and> (0::int) \<le> 4294967295 \<and> (4294967295::int) \<le> 2 ^ 32 - 1
   \<and> receiveBytes (NewReader [[255, 255, 255, 255]] EOF) \<noteq> Inl MakesliceLenOutOfRange"
proof -
  let ?r = "NewReader [[255, 255, 255, 255]] EOF"
  have e: "receiveInt ?r = ((4294967295, None), \<lparr>rbuf = [], rconn = [], rend = EOF\<rparr>)"
    by (simp add: codec_defs)
  from receiveInt_nonnegative [of ?r] e show ?thesis by blast
qed

text \<open>
  A read that returns fewer than 4 bytes is not an error for \<open>receiveInt\<close>: with the two
  bytes \<open>01 02\<close> at hand it returns the value of \<open>01 02 00 00\<close>. (The loop of
  \<open>receiveBytes\<close> does read on after a short read.)
\<close>

lemma receiveInt_short_read:
  "fst (receiveInt (NewReader [[1, 2]] EOF)) = (16908288, None)"
  by (simp add: codec_defs)

text \<open>
  Claim C3 as stated (\<open>receiveInt\<close> decodes the 4 bytes as a signed 32-bit integer) fails
  on the bytes \<open>FF FF FF FF\<close>: read as a signed 32-bit integer they are \<open>-1\<close>, and
  \<open>receiveInt\<close> returns \<open>4294967295\<close>.
\<close>

theorem receiveInt_signed_counterexample:
  "fst (receiveInt (NewReader [[255, 255, 255, 255]] EOF)) = (4294967295, None)
   \<and> sint (Uint32 [255, 255, 255, 255]) = - 1"
  by (simp add: codec_defs)

text \<open>
  Claim C3, amended. When the next read finds at least 4 bytes at hand, \<open>receiveInt\<close> takes
  exactly 4 bytes off the stream and returns their big-endian unsigned 32-bit value; when
  the connection has ended and nothing is buffered, it fails with the connection's error
  (\<open>EOF\<close> after the peer closed) and returns \<open>-1\<close>.
\<close>

theorem receiveInt_decodes:
  "(header_whole r \<longrightarrow>
      (\<exists>a b c d rest r'. stream r = a # b # c # d # rest
         \<and> receiveInt r
             = ((uint a * 2 ^ 24 + uint b * 2 ^ 16 + uint c * 2 ^ 8 + uint d, None), r')
         \<and> stream r' = rest))
   \<and> (rbuf r = [] \<and> rconn r = [] \<longrightarrow> receiveInt r = ((- 1, Some (rend r)), r))"
proof (intro conjI impI)
  assume h: "header_whole r"
  from receiveInt_whole [OF h] obtain r' where
    r': "receiveInt r = ((uint (Uint32 (take 4 (stream r))), None), r')"
    "stream r' = drop 4 (stream r)" by blast
  from Reader_Read_whole [OF h] have "4 \<le> length (stream r)" by blast
  then obtain a b c d rest where st: "stream r = a # b # c # d # rest"
    by (auto simp: Suc_le_length_iff eval_nat_numeral)
  with r' show "\<exists>a b c d rest r'. stream r = a # b # c # d # rest
         \<and> receiveInt r
             = ((uint a * 2 ^ 24 + uint b * 2 ^ 16 + uint c * 2 ^ 8 + uint d, None), r')
         \<and> stream r' = rest"
    by (simp add: be32_value)
next
  assume "rbuf r = [] \<and> rconn r = []"
  then show "receiveInt r = ((- 1, Some (rend r)), r)"
    by (simp add: receiveInt_def Reader_Read_def conn_Read_def defaultBufSize_def)
qed

theorem receiveInt_decodes_witness:
  "header_whole (NewReader [[255, 255, 255, 254, 5]] EOF)
   \<and> fst (receiveInt (NewReader [[255, 255, 255, 254, 5]] EOF)) = (4294967294, None)
   \<and> stream (snd (receiveInt (NewReader [[255, 255, 255, 254, 5]] EOF))) = [5]
   \<and> receiveInt (NewReader [] EOF) = ((- 1, Some EOF), NewReader [] EOF)"
proof -
  let ?r = "NewReader [[255, 255, 255, 254, 5]] EOF"
  have h: "header_whole ?r" by (simp add: header_whole_def NewReader_def)
  have st: "stream ?r = [255, 255, 255, 254, 5]" by (simp add: stream_def NewReader_def)
  from receiveInt_decodes [of ?r] h st
  have "fst (receiveInt ?r) = (4294967294, None) \<and> stream (snd (receiveInt ?r)) = [5]"
    by auto
  moreover from receiveInt_decodes [of "NewReader [] EOF"]
  have "receiveInt (NewReader [] EOF) = ((- 1, Some EOF), NewReader [] EOF)"
    by (simp add: NewReader_def)
  ultimately show ?thesis using h by blast
qed

subsection \<open>Byte blobs through the codec\<close>

text \<open>
  Claim C1 as stated (for every byte sequence, \<open>receiveBytes\<close> after \<open>sendBytes\<close> over
  a lossless stream yields the data) fails in two ways. A payload of \<open>2^32\<close> bytes is sent
  whole behind the length \<open>00 00 00 00\<close>, the low 32 bits of its length, and
  \<open>receiveBytes\<close> returns the empty blob. And when the stream delivers the bytes of
  \<open>sendBytes [7]\<close> cut after the first byte of the length, \<open>receiveInt\<close> decodes that
  one byte and \<open>receiveBytes\<close> returns the empty blob again.
\<close>

theorem sendBytes_receiveBytes_counterexample:
  "fst (sendBytes (NewWriter no_fail) (replicate (2 ^ 32) 0)) = (2 ^ 32, None)
   \<and> map_sum id fst (receiveBytes
         (NewReader (sent (snd (sendBytes (NewWriter no_fail) (replicate (2 ^ 32) 0)))) EOF))
       = Inr ([], None)
   \<and> replicate (2 ^ 32) (0 :: byte) \<noteq> []
   \<and> concat (sent (snd (sendBytes (NewWriter no_fail) [7]))) = concat [[0], [0, 0, 1, 7]]
   \<and> map_sum id fst (receiveBytes (NewReader [[0], [0, 0, 1, 7]] EOF)) = Inr ([], None)"
proof -
  let ?w = "NewWriter no_fail"
  define D :: "byte list" where "D = replicate (2 ^ 32) 0"
  have lenD: "int (length D) = 2 ^ 32" by (simp add: D_def)
  obtain w' where w': "sendBytes ?w D = ((int (length D), None), w')"
    using sendBytes_ok by blast
  have b: "wbuf ?w = []" by (simp add: NewWriter_def)
  from sendBytes_sent [OF w' b] obtain ws where
    "sent w' = sent ?w @ PutUint32 (int32 (int (length D))) # ws" by blast
  then have sw: "sent w' = [0, 0, 0, 0] # ws"
    unfolding lenD by (simp add: NewWriter_def no_fail_def PutUint32_def int32_def)
  have a1: "fst (sendBytes ?w D) = (2 ^ 32, None)"
    unfolding w' lenD by simp
  have a2: "map_sum id fst (receiveBytes (NewReader (sent (snd (sendBytes ?w D))) EOF))
      = Inr ([], None)"
    unfolding w' by (simp add: sw codec_defs receiveBytes_loop.simps)
  have a3: "D \<noteq> []" by (simp add: D_def)
  have a4: "concat (sent (snd (sendBytes ?w [7]))) = concat [[0], [0, 0, 1, 7]]"
    by (simp add: codec_defs sendBytes_loop.simps)
  have a5: "map_sum id fst (receiveBytes (NewReader [[0], [0, 0, 1, 7]] EOF)) = Inr ([], None)"
    by (simp add: codec_defs receiveBytes_loop.simps)
  from a1 a2 a3 a4 a5 show ?thesis unfolding D_def by blast
qed

text \<open>
  Claim C1, amended. For every byte sequence \<open>data\<close> of fewer than \<open>2^32\<close> bytes,
  including the empty one: when \<open>sendBytes\<close> has sent it without error, and the reader
  has those bytes next in its stream, cut into segments in any way that leaves the 4
  bytes of the length at hand for one read, \<open>receiveBytes\<close> yields exactly \<open>data\<close>,
  however many chunks the sender wrote, and leaves the reader at what followed.
\<close>

theorem sendBytes_receiveBytes_roundtrip:
  assumes "length data < 2 ^ 32"
    and "wbuf w = []" and "sendBytes w data = ((k, None), w')"
    and "header_whole r" and "stream r = concat (drop (length (sent w)) (sent w')) @ later"
  shows "\<exists>r'. receiveBytes r = Inr ((data, None), r') \<and> stream r' = later"
proof -
  from sendBytes_sent [OF assms(3,2)] obtain ws where
    "sent w' = sent w @ PutUint32 (int32 (int (length data))) # ws" "concat ws = data" by blast
  with assms(5) have st: "stream r = PutUint32 (int32 (int (length data))) @ data @ later"
    by simp
  have u: "uint (int32 (int (length data))) = int (length data)"
    using assms(1) by (intro uint_int32) auto
  from receiveInt_whole [OF assms(4)] obtain r1 where
    r1: "receiveInt r = ((int (length data), None), r1)" "stream r1 = data @ later"
    unfolding st by (auto simp: Uint32_PutUint32_exact u)
  have "nat (int (length data) - int (length ([] :: byte list))) \<le> length (stream r1)"
    using r1(2) by simp
  from receiveBytes_loop_stream [OF this] r1(2) obtain r' where
    "receiveBytes_loop r1 (int (length data)) [] = ((data, None), r')" "stream r' = later"
    by auto
  with r1(1) show ?thesis by (simp add: receiveBytes_def)
qed

theorem sendBytes_receiveBytes_roundtrip_witness:
  "length [1, 2, 3 :: byte] < 2 ^ 32
   \<and> sendBytes (NewWriter no_fail) [1, 2, 3]
       = ((3, None), \<lparr>wbuf = [], werr = None, sent = [[0, 0, 0, 3], [1, 2, 3]], wfail = no_fail\<rparr>)
   \<and> header_whole (NewReader [[0, 0, 0, 3, 1], [2], [3, 7]] EOF)
   \<and> (\<exists>r'. receiveBytes (NewReader [[0, 0, 0, 3, 1], [2], [3, 7]] EOF) = Inr (([1, 2, 3], None), r')
          \<and> stream r' = [7])"
proof -
  let ?w = "NewWriter no_fail"
  let ?w' = "\<lparr>wbuf = [], werr = None, sent = [[0, 0, 0, 3], [1, 2, 3]], wfail = no_fail\<rparr>"
  let ?r = "NewReader [[0, 0, 0, 3, 1], [2], [3, 7]] EOF"
  have s: "sendBytes ?w [1, 2, 3] = ((3, None), ?w')"
    by (simp add: codec_defs sendBytes_loop.simps)
  have b: "wbuf ?w = []" by (simp add: NewWriter_def)
  have h: "header_whole ?r" by (simp add: header_whole_def NewReader_def)
  have st: "stream ?r = concat (drop (length (sent ?w)) (sent ?w')) @ [7]"
    by (simp add: stream_def NewReader_def NewWriter_def)
  have l: "length [1, 2, 3 :: byte] < 2 ^ 32" by simp
  from sendBytes_receiveBytes_roundtrip [OF l b s h st] s h show ?thesis by simp
qed

section \<open>Properties of the address parsing\<close>

lemma Contains_single: "Contains s [c] \<longleftrightarrow> c \<in> set s"
  by (induction s) auto

text \<open>
  Claim C8. For every host string, the address-parsing step wraps the host in square
  brackets if and only if the string contains a colon, and otherwise leaves it unchanged;
  the client's and the server's step do the same to the same host.
\<close>

theorem ParseIPState_brackets:
  "ClientFSM_ParseIPState c =
     (ConnetServer, c\<lparr>ip := (if CHR '':'' \<in> set (ip c) then ''['' @ ip c @ '']'' else ip c)\<rparr>)
   \<and> ServerFSM_ParseIPState s =
     (MakeStorageDirectory,
      s\<lparr>s_ip := (if CHR '':'' \<in> set (s_ip s) then ''['' @ s_ip s @ '']'' else s_ip s)\<rparr>)
   \<and> (ip c = s_ip s \<longrightarrow> ip (snd (ClientFSM_ParseIPState c)) = s_ip (snd (ServerFSM_ParseIPState s)))"
  by (simp add: ClientFSM_ParseIPState_def ServerFSM_ParseIPState_def Contains_single)

theorem ParseIPState_brackets_witness:
  "ip (snd (ClientFSM_ParseIPState (NewClientFSM\<lparr>ip := ''::1''\<rparr>))) = ''[::1]''
   \<and> ip (snd (ClientFSM_ParseIPState (NewClientFSM\<lparr>ip := ''127.0.0.1''\<rparr>))) = ''127.0.0.1''
   \<and> s_ip (snd (ServerFSM_ParseIPState
        \<lparr>s_err = None, s_currentState = SrvParseIP, s_ip = ''::1'', s_port = ''9000'',
         s_storageDir = ''d''\<rparr>)) = ''[::1]''"
  using ParseIPState_brackets [of "NewClientFSM\<lparr>ip := ''::1''\<rparr>"
      "\<lparr>s_err = None, s_currentState = SrvParseIP, s_ip = ''::1'', s_port = ''9000'',
         s_storageDir = ''d''\<rparr>"]
    ParseIPState_brackets [of "NewClientFSM\<lparr>ip := ''127.0.0.1''\<rparr>"
      "\<lparr>s_err = None, s_currentState = SrvParseIP, s_ip = ''::1'', s_port = ''9000'',
         s_storageDir = ''d''\<rparr>"]
  by (simp add: NewClientFSM_def)

section \<open>Properties of the server's per-connection state machine\<close>

lemmas handler_defs = HandleClientFSM_iter_def HandleClientFSM_ReadNumFilesState_def
  HandleClientFSM_ReadFileNameState_def HandleClientFSM_ReadFileContentState_def
  HandleClientFSM_WriteFileState_def HandleClientFSM_ReceiveNextFileState_def
  HandleClientFSM_HandleErrorState_def enterH_def NewHandleClientFSM_def

text \<open>
  Claim C7 as stated (an \<open>EOF\<close> is reported as a closed connection rather than as a
  generic error) fails on a connection that the client closes at once: the handler prints
  the closed-connection line and then the generic line \<open>Error: EOF\<close> as well.
\<close>

theorem HandleError_counterexample:
  "map_option (map_sum id h_printed)
     (HandleClientFSM_Run ok_FileSys (NewHandleClientFSM (NewReader [] EOF) ''dir''))
   = Some (Inr [''Error: Client closed connection'', ''Error: EOF''])"
  by (simp add: HandleClientFSM_Run.simps handler_defs codec_defs ok_FileSys_def)

text \<open>
  Claim C7, amended. Whenever the handler is in \<open>HandleError\<close> it goes to \<open>Exit\<close>,
  whatever the error. An error whose message is \<open>EOF\<close> is reported by the line
  \<open>Error: Client closed connection\<close> followed by the generic line \<open>Error: EOF\<close>; any
  other error by the generic line alone. And every pass that enters \<open>HandleError\<close> has
  stored an error, so the handler does not panic there.
\<close>

theorem HandleErrorState_exits:
  "(h_currentState fsm = HandleErrorH \<and> h_err fsm = Some e \<longrightarrow>
      HandleClientFSM_iter F fsm =
        Inr (fsm\<lparr>h_printed := h_printed fsm
                    @ (if Error e = ''EOF'' then [''Error: Client closed connection''] else [])
                    @ [''Error: '' @ Error e],
                 h_currentState := Exit\<rparr>))
   \<and> (h_currentState fsm \<noteq> HandleErrorH \<and> HandleClientFSM_iter F fsm = Inr fsm'
        \<and> h_currentState fsm' = HandleErrorH \<longrightarrow> h_err fsm' \<noteq> None)"
  by (cases "h_currentState fsm")
     (auto simp: handler_defs Let_def split: prod.splits option.splits sum.splits if_splits)

theorem HandleErrorState_exits_witness:
  "map_sum id (\<lambda>f. (h_currentState f, h_printed f))
     (HandleClientFSM_iter ok_FileSys
        ((NewHandleClientFSM (NewReader [] EOF) ''dir'')
           \<lparr>h_currentState := HandleErrorH, h_err := Some EOF\<rparr>))
     = Inr (Exit, [''Error: Client closed connection'', ''Error: EOF''])
   \<and> map_sum id (\<lambda>f. (h_currentState f, h_printed f))
     (HandleClientFSM_iter ok_FileSys
        ((NewHandleClientFSM (NewReader [] EOF) ''dir'')
           \<lparr>h_currentState := HandleErrorH, h_err := Some (Err ''connection reset by peer'')\<rparr>))
     = Inr (Exit, [''Error: connection reset by peer''])
   \<and> HandleClientFSM_iter ok_FileSys (NewHandleClientFSM (NewReader [] EOF) ''dir'')
     = Inr ((NewHandleClientFSM (NewReader [] EOF) ''dir'')
              \<lparr>h_currentState := HandleErrorH, numFiles := - 1, h_err := Some EOF\<rparr>)
   \<and> h_err ((NewHandleClientFSM (NewReader [] EOF) ''dir'')
              \<lparr>h_currentState := HandleErrorH, numFiles := - 1, h_err := Some EOF\<rparr>) \<noteq> None"
proof -
  let ?f = "NewHandleClientFSM (NewReader [] EOF) ''dir''"
  let ?g = "?f\<lparr>h_currentState := HandleErrorH, numFiles := - 1, h_err := Some EOF\<rparr>"
  have i: "HandleClientFSM_iter ok_FileSys ?f = Inr ?g"
    by (simp add: handler_defs codec_defs)
  from HandleErrorState_exits
    [of "?f\<lparr>h_currentState := HandleErrorH, h_err := Some EOF\<rparr>" EOF ok_FileSys]
  have a: "map_sum id (\<lambda>f. (h_currentState f, h_printed f))
      (HandleClientFSM_iter ok_FileSys (?f\<lparr>h_currentState := HandleErrorH, h_err := Some EOF\<rparr>))
      = Inr (Exit, [''Error: Client closed connection'', ''Error: EOF''])"
    by (simp add: NewHandleClientFSM_def)
  from HandleErrorState_exits
    [of "?f\<lparr>h_currentState := HandleErrorH, h_err := Some (Err ''connection reset by peer'')\<rparr>"
      "Err ''connection reset by peer''" ok_FileSys]
  have b: "map_sum id (\<lambda>f. (h_currentState f, h_printed f))
      (HandleClientFSM_iter ok_FileSys
         (?f\<lparr>h_currentState := HandleErrorH, h_err := Some (Err ''connection reset by peer'')\<rparr>))
      = Inr (Exit, [''Error: connection reset by peer''])"
    by (simp add: NewHandleClientFSM_def)
  from HandleErrorState_exits [of ?f _ ok_FileSys ?g] i
  have c: "h_err ?g \<noteq> None"
    by (simp add: NewHandleClientFSM_def)
  from a b i c show ?thesis by blast
qed

subsection \<open>The file counter\<close>

text \<open>
  When a batch of at least one file arrives write by write, the handler reads the count,
  then exactly that many file units, 4 passes for each, and is in \<open>Exit\<close> with the counter
  at the count, without an error and with the rest of the stream unread.
\<close>

lemma HandleClientFSM_Run_iters:
  assumes "HandleClientFSM_iters n F fsm = Inr fsm'" and "h_currentState fsm' = Exit"
  shows "HandleClientFSM_Run F fsm = Some (Inr fsm')"
  using assms
proof (induction n arbitrary: fsm)
  case 0
  then show ?case by (simp add: HandleClientFSM_Run.simps)
next
  case (Suc n)
  show ?case
  proof (cases "h_currentState fsm = Exit")
    case True
    then have "HandleClientFSM_iter F fsm = Inr fsm" by (simp add: HandleClientFSM_iter_def)
    with Suc.prems have "HandleClientFSM_iters n F fsm = Inr fsm'" by simp
    from Suc.IH [OF this Suc.prems(2)] show ?thesis .
  next
    case False
    from Suc.prems(1) obtain fsm1 where s1: "HandleClientFSM_iter F fsm = Inr fsm1"
      and r: "HandleClientFSM_iters n F fsm1 = Inr fsm'"
      by (auto split: sum.splits)
    from Suc.IH [OF r Suc.prems(2)] False s1 show ?thesis
      by (subst HandleClientFSM_Run.simps) simp
  qed
qed

lemma HandleClientFSM_iters_add:
  "HandleClientFSM_iters (m + n) F fsm =
     (case HandleClientFSM_iters m F fsm of
        Inl p \<Rightarrow> Inl p
      | Inr fsm' \<Rightarrow> HandleClientFSM_iters n F fsm')"
  by (induction m arbitrary: fsm) (auto split: sum.splits)

lemma HandleClientFSM_unit:
  assumes st: "h_currentState fsm = ReadFileName"
    and rb: "rbuf (reader fsm) = []"
    and rc: "rconn (reader fsm) = unit_segments (nm, ct) @ rest"
    and ln: "length nm < 2 ^ 32" and lc: "length ct < 2 ^ 32"
    and ok: "\<forall>i p. os_Create F i p = None \<and> File_Write F i p = None"
  shows "\<exists>fsm'. HandleClientFSM_iters 4 F fsm = Inr fsm'
           \<and> h_currentState fsm' =
               (if h_currentFile fsm + 1 = numFiles fsm then Exit else ReadFileName)
           \<and> h_currentFile fsm' = h_currentFile fsm + 1
           \<and> numFiles fsm' = numFiles fsm \<and> h_err fsm' = None
           \<and> rbuf (reader fsm') = [] \<and> rconn (reader fsm') = rest
           \<and> disk fsm' = (disk fsm)(storageDir fsm @ ''/'' @ string_of_bytes nm \<mapsto> ct)"
proof -
  from rc have rc': "rconn (reader fsm) = blob nm @ (blob ct @ rest)"
    by (simp add: unit_segments_def)
  from receiveBytes_blob [OF rb rc' ln] obtain r1 where
    r1: "receiveBytes (reader fsm) = Inr ((nm, None), r1)" "rbuf r1 = []"
    "rconn r1 = blob ct @ rest" by blast
  from receiveBytes_blob [OF r1(2,3) lc] obtain r2 where
    r2: "receiveBytes r1 = Inr ((ct, None), r2)" "rbuf r2 = []" "rconn r2 = rest" by blast
  define f1 where "f1 = fsm\<lparr>reader := r1, fileName := string_of_bytes nm,
      h_currentState := ReadFileContent\<rparr>"
  have s1: "HandleClientFSM_iter F fsm = Inr f1"
    using st r1(1) by (simp add: handler_defs f1_def)
  define f2 where "f2 = f1\<lparr>reader := r2, fileContent := ct, h_err := None,
      h_currentState := WriteFile\<rparr>"
  have s2: "HandleClientFSM_iter F f1 = Inr f2"
    using r2(1) by (simp add: handler_defs f1_def f2_def)
  obtain f3 where s3: "HandleClientFSM_iter F f2 = Inr f3"
    and p3: "h_currentState f3 = ReceiveNextFile" "h_currentFile f3 = h_currentFile fsm + 1"
      "numFiles f3 = numFiles fsm" "h_err f3 = None" "reader f3 = r2"
      "disk f3 = (disk fsm)(storageDir fsm @ ''/'' @ string_of_bytes nm \<mapsto> ct)"
    using ok by (simp add: handler_defs f1_def f2_def Let_def)
  obtain f4 where s4: "HandleClientFSM_iter F f3 = Inr f4"
    and p4: "h_currentState f4 =
        (if h_currentFile fsm + 1 = numFiles fsm then Exit else ReadFileName)"
      "h_currentFile f4 = h_currentFile fsm + 1"
      "numFiles f4 = numFiles fsm" "h_err f4 = None" "reader f4 = r2"
      "disk f4 = (disk fsm)(storageDir fsm @ ''/'' @ string_of_bytes nm \<mapsto> ct)"
    using p3 by (simp add: handler_defs)
  have "HandleClientFSM_iters 4 F fsm = Inr f4"
    using s1 s2 s3 s4 by (simp add: eval_nat_numeral)
  with p4 r2 show ?thesis by auto
qed

lemma HandleClientFSM_units:
  assumes "h_currentState fsm = ReadFileName"
    and "rbuf (reader fsm) = []"
    and "rconn (reader fsm) = concat (map unit_segments fs) @ rest"
    and "fs \<noteq> []"
    and "numFiles fsm = h_currentFile fsm + int (length fs)"
    and "\<forall>u \<in> set fs. length (fst u) < 2 ^ 32 \<and> length (snd u) < 2 ^ 32"
    and ok: "\<forall>i p. os_Create F i p = None \<and> File_Write F i p = None"
  shows "\<exists>fsm'. HandleClientFSM_iters (4 * length fs) F fsm = Inr fsm'
           \<and> h_currentState fsm' = Exit
           \<and> h_currentFile fsm' = numFiles fsm \<and> numFiles fsm' = numFiles fsm
           \<and> h_err fsm' = None
           \<and> rbuf (reader fsm') = [] \<and> rconn (reader fsm') = rest"
  using assms(1-6)
proof (induction fs arbitrary: fsm)
  case Nil
  then show ?case by simp
next
  case (Cons u fs)
  obtain nm ct where u: "u = (nm, ct)" by (cases u)
  from Cons.prems(3) have rc: "rconn (reader fsm)
      = unit_segments (nm, ct) @ (concat (map unit_segments fs) @ rest)"
    by (simp add: u)
  from Cons.prems(6) have l: "length nm < 2 ^ 32" "length ct < 2 ^ 32" by (simp_all add: u)
  from HandleClientFSM_unit [OF Cons.prems(1,2) rc l ok] obtain f4 where
    f4: "HandleClientFSM_iters 4 F fsm = Inr f4"
    "h_currentState f4 = (if h_currentFile fsm + 1 = numFiles fsm then Exit else ReadFileName)"
    "h_currentFile f4 = h_currentFile fsm + 1" "numFiles f4 = numFiles fsm" "h_err f4 = None"
    "rbuf (reader f4) = []" "rconn (reader f4) = concat (map unit_segments fs) @ rest"
    by blast
  show ?case
  proof (cases "fs = []")
    case True
    with Cons.prems(5) f4 show ?thesis by auto
  next
    case False
    with Cons.prems(5) f4(2) have st4: "h_currentState f4 = ReadFileName" by auto
    have nf: "numFiles f4 = h_currentFile f4 + int (length fs)"
      using Cons.prems(5) f4(3,4) by simp
    from Cons.prems(6) have "\<forall>u \<in> set fs. length (fst u) < 2 ^ 32 \<and> length (snd u) < 2 ^ 32"
      by simp
    from Cons.IH [OF st4 f4(6,7) False nf this] obtain fsm' where
      "HandleClientFSM_iters (4 * length fs) F f4 = Inr fsm'"
      "h_currentState fsm' = Exit" "h_currentFile fsm' = numFiles f4"
      "numFiles fsm' = numFiles f4" "h_err fsm' = None"
      "rbuf (reader fsm') = []" "rconn (reader fsm') = rest" by blast
    moreover have "HandleClientFSM_iters (4 * length (u # fs)) F fsm
        = (case HandleClientFSM_iters 4 F fsm of
             Inl p \<Rightarrow> Inl p
           | Inr f \<Rightarrow> HandleClientFSM_iters (4 * length fs) F f)"
      using HandleClientFSM_iters_add [of 4 "4 * length fs" F fsm] by simp
    ultimately show ?thesis using f4(1,4) by simp
  qed
qed

lemma HandleClientFSM_exits_at_count:
  assumes "fs \<noteq> []" and "length fs < 2 ^ 32"
    and "\<forall>u \<in> set fs. length (fst u) < 2 ^ 32 \<and> length (snd u) < 2 ^ 32"
    and ok: "\<forall>i p. os_Create F i p = None \<and> File_Write F i p = None"
  shows "\<exists>fsm'. HandleClientFSM_Run F
             (NewHandleClientFSM (NewReader (batch_segments fs @ later) e) dir) = Some (Inr fsm')
           \<and> h_currentState fsm' = Exit
           \<and> h_currentFile fsm' = int (length fs) \<and> numFiles fsm' = int (length fs)
           \<and> h_err fsm' = None
           \<and> rbuf (reader fsm') = [] \<and> rconn (reader fsm') = later"
proof -
  let ?f0 = "NewHandleClientFSM (NewReader (batch_segments fs @ later) e) dir"
  define r1 where "r1 = \<lparr>rbuf = [], rconn = concat (map unit_segments fs) @ later, rend = e\<rparr>"
  have u: "uint (int32 (int (length fs))) = int (length fs)"
    using assms(2) by (intro uint_int32) auto
  have "Reader_Read (NewReader (batch_segments fs @ later) e) 4
      = ((PutUint32 (int32 (int (length fs))), None), r1)"
    by (simp add: Reader_Read_def conn_Read_def batch_segments_def defaultBufSize_def r1_def
        NewReader_def)
  then have ri: "receiveInt (NewReader (batch_segments fs @ later) e)
      = ((int (length fs), None), r1)"
    by (simp add: receiveInt_def Uint32_PutUint32_exact u)
  define f1 where "f1 = ?f0\<lparr>reader := r1, numFiles := int (length fs), h_err := None,
      h_currentState := ReadFileName\<rparr>"
  have s1: "HandleClientFSM_iter F ?f0 = Inr f1"
    using ri by (simp add: handler_defs f1_def)
  have p1: "h_currentState f1 = ReadFileName" "rbuf (reader f1) = []"
    "rconn (reader f1) = concat (map unit_segments fs) @ later"
    "numFiles f1 = h_currentFile f1 + int (length fs)"
    by (simp_all add: f1_def r1_def NewHandleClientFSM_def)
  from HandleClientFSM_units [OF p1(1-3) assms(1) p1(4) assms(3) ok] obtain fsm' where
    f: "HandleClientFSM_iters (4 * length fs) F f1 = Inr fsm'" "h_currentState fsm' = Exit"
    "h_currentFile fsm' = numFiles f1" "numFiles fsm' = numFiles f1" "h_err fsm' = None"
    "rbuf (reader fsm') = []" "rconn (reader fsm') = later" by blast
  from f(1) s1 have "HandleClientFSM_iters (Suc (4 * length fs)) F ?f0 = Inr fsm'" by simp
  from HandleClientFSM_Run_iters [OF this f(2)] f show ?thesis
    by (simp add: f1_def)
qed

text \<open>
  Claim C2 says that the handler reaches \<open>Exit\<close> exactly when it has processed the
  declared number of files, for every declared count, zero included. For a count of at
  least 1 that is \<open>HandleClientFSM_exits_at_count\<close>. But the handler goes
  from \<open>ReadNumFiles\<close> straight to \<open>ReadFileName\<close> and compares the counter with the
  count only after a file has been written. On a connection that declares 0 files and is
  then closed, it tries to read a file name and leaves through \<open>HandleError\<close> with the
  error \<open>EOF\<close>; on one that declares 0 files and goes on with a file unit (name \<open>a\<close>,
  content \<open>b\<close>), it writes that file, finds the counter 1 different from the count 0 and
  reads on until the stream ends.
\<close>

theorem zero_count_runs:
  "map_option (map_sum id (\<lambda>f. (numFiles f, h_currentFile f, h_err f, h_printed f)))
     (HandleClientFSM_Run ok_FileSys (NewHandleClientFSM (NewReader [[0, 0, 0, 0]] EOF) ''dir''))
   = Some (Inr (0, 0, Some EOF, [''Error: Client closed connection'', ''Error: EOF'']))
   \<and> map_option (map_sum id (\<lambda>f. (numFiles f, h_currentFile f, h_err f, disk f ''dir/a'')))
     (HandleClientFSM_Run ok_FileSys (NewHandleClientFSM
        (NewReader [[0, 0, 0, 0], [0, 0, 0, 1], [97], [0, 0, 0, 1], [98]] EOF) ''dir''))
   = Some (Inr (0, 1, Some EOF, Some [98]))"
  by (simp add: HandleClientFSM_Run.simps handler_defs codec_defs ok_FileSys_def
      receiveBytes_loop.simps string_of_bytes_def char_of_def bit_0)

section \<open>Properties of the client's state machine\<close>

lemmas client_defs = ClientFSM_iter_def enter_def ClientFSM_ValidateArgsState_def
  ClientFSM_ParseIPState_def ClientFSM_ConnetServerState_def ClientFSM_SendFileCountState_def
  ClientFSM_OpenFileState_def ClientFSM_SendFileNameState_def
  ClientFSM_ReadAndSendFileDataState_def ClientFSM_SendNextFileState_def
  ClientFSM_HandleFatalErrorState_def ClientFSM_HandleFileError_def

lemma ClientFSM_rank_decreases:
  assumes "currentState fsm \<noteq> Terminate" and "currentState fsm \<noteq> Initialization"
    and "ClientFSM_iter W fsm = Inr fsm'"
  shows "ClientFSM_rank W fsm' < ClientFSM_rank W fsm"
  using assms
  by (cases "currentState fsm")
     (auto simp: client_defs ClientFSM_rank_def Let_def arguments_def
       split: if_splits option.splits sum.splits prod.splits)

lemma ClientFSM_inv_step:
  assumes "ClientFSM_inv fsm" and "currentState fsm \<noteq> Terminate"
  shows "\<exists>fsm'. ClientFSM_iter W fsm = Inr fsm' \<and> ClientFSM_inv fsm'"
  using assms
  by (cases "currentState fsm")
     (auto simp: client_defs ClientFSM_inv_def Let_def arguments_def
       split: if_splits option.splits sum.splits prod.splits)

lemma ClientFSM_iters_add:
  "ClientFSM_iters (m + n) W fsm =
     (case ClientFSM_iters m W fsm of Inl p \<Rightarrow> Inl p | Inr fsm' \<Rightarrow> ClientFSM_iters n W fsm')"
  by (induction m arbitrary: fsm) (auto split: sum.splits)

lemma ClientFSM_Run_iters:
  assumes "ClientFSM_iters n W fsm = Inr fsm'" and "currentState fsm' = Terminate"
  shows "ClientFSM_Run W fsm = Some (Inr (ClientFSM_TerminateState fsm'))"
  using assms
proof (induction n arbitrary: fsm)
  case 0
  then show ?case by (simp add: ClientFSM_Run.simps)
next
  case (Suc n)
  show ?case
  proof (cases "currentState fsm = Terminate")
    case True
    then have "ClientFSM_iter W fsm = Inr fsm" by (simp add: ClientFSM_iter_def)
    with Suc.prems have "ClientFSM_iters n W fsm = Inr fsm'" by simp
    from Suc.IH [OF this Suc.prems(2)] show ?thesis .
  next
    case False
    from Suc.prems(1) obtain fsm1 where s1: "ClientFSM_iter W fsm = Inr fsm1"
      and r: "ClientFSM_iters n W fsm1 = Inr fsm'"
      by (auto split: sum.splits)
    from Suc.IH [OF r Suc.prems(2)] False s1 show ?thesis
      by (subst ClientFSM_Run.simps) simp
  qed
qed

lemma ClientFSM_reaches_Terminate_inv:
  assumes step: "\<And>f. I f \<Longrightarrow> currentState f \<noteq> Terminate
                  \<Longrightarrow> \<exists>f'. ClientFSM_iter W f = Inr f' \<and> I f'"
    and ni: "\<And>f. I f \<Longrightarrow> currentState f \<noteq> Initialization"
    and "I fsm"
  shows "\<exists>n fsm'. ClientFSM_iters n W fsm = Inr fsm' \<and> currentState fsm' = Terminate \<and> I fsm'"
  using assms(3)
proof (induction "ClientFSM_rank W fsm" arbitrary: fsm rule: less_induct)
  case less
  show ?case
  proof (cases "currentState fsm = Terminate")
    case True
    with less.prems have "ClientFSM_iters 0 W fsm = Inr fsm \<and> currentState fsm = Terminate
        \<and> I fsm" by simp
    then show ?thesis by blast
  next
    case False
    from step [OF less.prems False] obtain fsm1 where
      s1: "ClientFSM_iter W fsm = Inr fsm1" and i1: "I fsm1" by blast
    from ClientFSM_rank_decreases [OF False ni [OF less.prems] s1]
    have "ClientFSM_rank W fsm1 < ClientFSM_rank W fsm" .
    from less.hyps [OF this i1] obtain n fsm' where
      "ClientFSM_iters n W fsm1 = Inr fsm'" "currentState fsm' = Terminate" "I fsm'"
      by blast
    with s1 have "ClientFSM_iters (Suc n) W fsm = Inr fsm' \<and> currentState fsm' = Terminate
        \<and> I fsm'" by simp
    then show ?thesis by blast
  qed
qed

lemma within_step:
  assumes "ClientFSM_iter W fsm = Inr fsm1" and "within k W fsm1 Q"
  shows "within (Suc k) W fsm Q"
proof -
  from assms(2) obtain n fsm' where "n \<le> k" "ClientFSM_iters n W fsm1 = Inr fsm'" "Q fsm'"
    unfolding within_def by blast
  with assms(1) have "Suc n \<le> Suc k \<and> ClientFSM_iters (Suc n) W fsm = Inr fsm' \<and> Q fsm'"
    by simp
  then show ?thesis unfolding within_def by blast
qed

lemma within_mono: "within k W fsm Q \<Longrightarrow> k \<le> k' \<Longrightarrow> within k' W fsm Q"
  unfolding within_def by (meson le_trans)

lemma within_now: "Q fsm \<Longrightarrow> within k W fsm Q"
  unfolding within_def by (intro exI [of _ 0] exI [of _ fsm]) simp

lemma ClientFSM_file_cycle:
  assumes inv: "ClientFSM_inv fsm" and st: "currentState fsm = OpenFile"
  shows "\<exists>n fsm'. n \<le> 5 \<and> ClientFSM_iters n W fsm = Inr fsm'
           \<and> (currentState fsm' = Terminate
               \<or> currentState fsm' = OpenFile \<and> currentFile fsm' = currentFile fsm + 1)
           \<and> currentFile fsm' \<le> int (length (fileNames fsm))
           \<and> fileNames fsm' = fileNames fsm"
proof -
  define c where "c = currentFile fsm"
  define fs where "fs = fileNames fsm"
  define Q :: "ClientFSM \<Rightarrow> bool" where "Q = (\<lambda>f. (currentState f = Terminate
      \<or> currentState f = OpenFile \<and> currentFile f = c + 1)
      \<and> currentFile f \<le> int (length fs) \<and> fileNames f = fs)"
  have nxt: "within 1 W f Q"
    if h: "ClientFSM_inv f" "currentState f = SendNextFile" "currentFile f = c + 1" "fileNames f = fs"
    for f
  proof -
    obtain f1 where f1: "ClientFSM_iter W f = Inr f1"
      using ClientFSM_inv_step [of f W] h by auto
    with h have "Q f1"
      by (auto simp: Q_def client_defs ClientFSM_inv_def split: if_splits)
    then show ?thesis using within_step [OF f1 within_now] by simp
  qed
  have fatal: "within 1 W f Q"
    if h: "ClientFSM_inv f" "currentState f = HandleFatalError" "fileNames f = fs"
    for f
  proof -
    obtain f1 where f1: "ClientFSM_iter W f = Inr f1"
      using ClientFSM_inv_step [of f W] h by auto
    with h have "Q f1"
      by (auto simp: Q_def client_defs ClientFSM_inv_def split: if_splits)
    then show ?thesis using within_step [OF f1 within_now] by simp
  qed
  have herr: "within 2 W f Q"
    if h: "ClientFSM_inv f" "currentState f = HandleError" "currentFile f = c" "fileNames f = fs"
    for f
  proof -
    obtain f1 where f1: "ClientFSM_iter W f = Inr f1" and i1: "ClientFSM_inv f1"
      using ClientFSM_inv_step [of f W] h by auto
    with h have "currentState f1 = SendNextFile" "currentFile f1 = c + 1" "fileNames f1 = fs"
      by (auto simp: client_defs split: if_splits)
    from within_step [OF f1 nxt [OF i1 this]] show ?thesis by (simp add: numeral_2_eq_2)
  qed
  have rd: "within 3 W f Q"
    if h: "ClientFSM_inv f" "currentState f = ReadAndSendFileData" "currentFile f = c"
      "fileNames f = fs"
    for f
  proof -
    obtain f1 where f1: "ClientFSM_iter W f = Inr f1" and i1: "ClientFSM_inv f1"
      using ClientFSM_inv_step [of f W] h by auto
    with h consider
      "currentState f1 = HandleError" "currentFile f1 = c" "fileNames f1 = fs"
      | "currentState f1 = HandleFatalError" "fileNames f1 = fs"
      | "currentState f1 = SendNextFile" "currentFile f1 = c + 1" "fileNames f1 = fs"
      by (auto simp: client_defs Let_def split: if_splits sum.splits option.splits prod.splits)
    then have "within 2 W f1 Q"
    proof cases
      case 1
      from herr [OF i1 this] show ?thesis .
    next
      case 2
      from within_mono [OF fatal [OF i1 this]] show ?thesis by simp
    next
      case 3
      from within_mono [OF nxt [OF i1 this]] show ?thesis by simp
    qed
    from within_step [OF f1 this] show ?thesis by (simp add: numeral_3_eq_3 numeral_2_eq_2)
  qed
  have nm: "within 4 W f Q"
    if h: "ClientFSM_inv f" "currentState f = SendFileName" "currentFile f = c" "fileNames f = fs"
    for f
  proof -
    obtain f1 where f1: "ClientFSM_iter W f = Inr f1" and i1: "ClientFSM_inv f1"
      using ClientFSM_inv_step [of f W] h by auto
    with h consider
      "currentState f1 = HandleError" "currentFile f1 = c" "fileNames f1 = fs"
      | "currentState f1 = HandleFatalError" "fileNames f1 = fs"
      | "currentState f1 = ReadAndSendFileData" "currentFile f1 = c" "fileNames f1 = fs"
      by (auto simp: client_defs Let_def split: if_splits sum.splits option.splits prod.splits)
    then have "within 3 W f1 Q"
    proof cases
      case 1
      from within_mono [OF herr [OF i1 this]] show ?thesis by simp
    next
      case 2
      from within_mono [OF fatal [OF i1 this]] show ?thesis by simp
    next
      case 3
      from rd [OF i1 this] show ?thesis .
    qed
    from within_step [OF f1 this] show ?thesis by (simp add: eval_nat_numeral)
  qed
  obtain f1 where f1: "ClientFSM_iter W fsm = Inr f1" and i1: "ClientFSM_inv f1"
    using ClientFSM_inv_step [of fsm W] inv st by auto
  with st consider
    "currentState f1 = HandleError" "currentFile f1 = c" "fileNames f1 = fs"
    | "currentState f1 = SendFileName" "currentFile f1 = c" "fileNames f1 = fs"
    by (auto simp: client_defs Let_def c_def fs_def
        split: if_splits sum.splits option.splits prod.splits)
  then have "within 4 W f1 Q"
  proof cases
    case 1
    from within_mono [OF herr [OF i1 this]] show ?thesis by simp
  next
    case 2
    from nm [OF i1 this] show ?thesis .
  qed
  from within_step [OF f1 this] have "within 5 W fsm Q" by (simp add: eval_nat_numeral)
  then show ?thesis unfolding within_def Q_def c_def fs_def by blast
qed


text \<open>
  Claim C9. For every argument list and every outcome of the I/O operations, the client's
  \<open>Run\<close> terminates: started from \<open>NewClientFSM\<close> it returns, in \<open>Terminate\<close> and
  without a panic. The invariant holds at the start and after every pass, and every pass
  lowers the variant. Each attempt at a file, from \<open>OpenFile\<close>, reaches \<open>Terminate\<close>
  (directly or through \<open>HandleFatalError\<close>) or comes back to \<open>OpenFile\<close> with the cursor
  one higher, within 5 passes, and the cursor never exceeds the number of files.
\<close>

theorem ClientFSM_Run_terminates:
  "(\<exists>fsm'. ClientFSM_Run W NewClientFSM = Some (Inr fsm') \<and> currentState fsm' = Terminate)
   \<and> ClientFSM_inv NewClientFSM
   \<and> (\<forall>fsm. ClientFSM_inv fsm \<and> currentState fsm \<noteq> Terminate \<longrightarrow>
         (\<exists>fsm'. ClientFSM_iter W fsm = Inr fsm' \<and> ClientFSM_inv fsm'
            \<and> ClientFSM_rank W fsm' < ClientFSM_rank W fsm))
   \<and> (\<forall>fsm. ClientFSM_inv fsm \<and> currentState fsm = OpenFile \<longrightarrow>
         (\<exists>n fsm'. n \<le> 5 \<and> ClientFSM_iters n W fsm = Inr fsm'
            \<and> (currentState fsm' = Terminate
                \<or> currentState fsm' = OpenFile \<and> currentFile fsm' = currentFile fsm + 1)
            \<and> currentFile fsm' \<le> int (length (fileNames fsm))
            \<and> fileNames fsm' = fileNames fsm))"
proof (intro conjI allI impI)
  show i0: "ClientFSM_inv NewClientFSM"
    by (simp add: ClientFSM_inv_def NewClientFSM_def)
  have ni: "currentState f \<noteq> Initialization" if "ClientFSM_inv f" for f
    using that by (auto simp: ClientFSM_inv_def)
  from ClientFSM_reaches_Terminate_inv [of ClientFSM_inv W NewClientFSM,
      OF ClientFSM_inv_step ni i0]
  obtain n fsm' where
    n: "ClientFSM_iters n W NewClientFSM = Inr fsm'" "currentState fsm' = Terminate" by blast
  from ClientFSM_Run_iters [OF n] n(2)
  show "\<exists>fsm'. ClientFSM_Run W NewClientFSM = Some (Inr fsm') \<and> currentState fsm' = Terminate"
    by (auto simp: ClientFSM_TerminateState_def Let_def split: option.splits)
next
  fix fsm
  assume a: "ClientFSM_inv fsm \<and> currentState fsm \<noteq> Terminate"
  then obtain fsm' where s: "ClientFSM_iter W fsm = Inr fsm'" "ClientFSM_inv fsm'"
    using ClientFSM_inv_step [of fsm W] by blast
  from a have "currentState fsm \<noteq> Initialization" by (auto simp: ClientFSM_inv_def)
  with ClientFSM_rank_decreases [of fsm W fsm'] a s
  show "\<exists>fsm'. ClientFSM_iter W fsm = Inr fsm' \<and> ClientFSM_inv fsm'
          \<and> ClientFSM_rank W fsm' < ClientFSM_rank W fsm" by blast
next
  fix fsm
  assume "ClientFSM_inv fsm \<and> currentState fsm = OpenFile"
  then show "\<exists>n fsm'. n \<le> 5 \<and> ClientFSM_iters n W fsm = Inr fsm'
            \<and> (currentState fsm' = Terminate
                \<or> currentState fsm' = OpenFile \<and> currentFile fsm' = currentFile fsm + 1)
            \<and> currentFile fsm' \<le> int (length (fileNames fsm))
            \<and> fileNames fsm' = fileNames fsm"
    using ClientFSM_file_cycle [of fsm W] by blast
qed

theorem ClientFSM_Run_terminates_witness:
  "ClientFSM_inv (at_OpenFile [''a.txt'', ''b.txt''] 1 (NewWriter (conn_fail World_b_missing)))
   \<and> (\<exists>n fsm'. n \<le> 5
         \<and> ClientFSM_iters n World_b_missing
             (at_OpenFile [''a.txt'', ''b.txt''] 1 (NewWriter (conn_fail World_b_missing)))
           = Inr fsm'
         \<and> (currentState fsm' = Terminate
             \<or> currentState fsm' = OpenFile \<and> currentFile fsm' = 2)
         \<and> currentFile fsm' \<le> 2)
   \<and> (\<exists>fsm'. ClientFSM_Run World_b_missing NewClientFSM = Some (Inr fsm')
         \<and> currentState fsm' = Terminate)"
proof -
  let ?f = "at_OpenFile [''a.txt'', ''b.txt''] 1 (NewWriter (conn_fail World_b_missing))"
  have i: "ClientFSM_inv ?f" and s: "currentState ?f = OpenFile"
    by (simp_all add: ClientFSM_inv_def at_OpenFile_def NewClientFSM_def)
  from ClientFSM_Run_terminates [of World_b_missing] i s
  have "(\<exists>n fsm'. n \<le> 5 \<and> ClientFSM_iters n World_b_missing ?f = Inr fsm'
         \<and> (currentState fsm' = Terminate
             \<or> currentState fsm' = OpenFile \<and> currentFile fsm' = currentFile ?f + 1)
         \<and> currentFile fsm' \<le> int (length (fileNames ?f)) \<and> fileNames fsm' = fileNames ?f)
     \<and> (\<exists>fsm'. ClientFSM_Run World_b_missing NewClientFSM = Some (Inr fsm')
         \<and> currentState fsm' = Terminate)"
    by blast
  with i show ?thesis by (simp add: at_OpenFile_def NewClientFSM_def) blast
qed


subsection \<open>Per-file errors and fatal errors\<close>

lemma iters3: "ClientFSM_iters 3 W fsm =
  (case ClientFSM_iter W fsm of Inl p \<Rightarrow> Inl p | Inr f1 \<Rightarrow>
    (case ClientFSM_iter W f1 of Inl p \<Rightarrow> Inl p | Inr f2 \<Rightarrow> ClientFSM_iter W f2))"
  by (simp add: eval_nat_numeral split: sum.splits)

lemma iters4: "ClientFSM_iters 4 W fsm =
  (case ClientFSM_iter W fsm of Inl p \<Rightarrow> Inl p | Inr f1 \<Rightarrow> ClientFSM_iters 3 W f1)"
  by (simp add: eval_nat_numeral split: sum.splits)

lemma iters5: "ClientFSM_iters 5 W fsm =
  (case ClientFSM_iter W fsm of Inl p \<Rightarrow> Inl p | Inr f1 \<Rightarrow> ClientFSM_iters 4 W f1)"
  by (simp add: eval_nat_numeral split: sum.splits)

lemma open_fails_skips:
  assumes "currentState fsm = OpenFile" and "0 \<le> currentFile fsm"
    and "currentFile fsm < int (length (fileNames fsm))"
    and "path = fileNames fsm ! nat (currentFile fsm)"
    and "os_Open W (currentFile fsm) path = Some e"
  shows "\<exists>fsm'. ClientFSM_iters 3 W fsm = Inr fsm'
           \<and> currentFile fsm' = currentFile fsm + 1
           \<and> currentState fsm' =
               (if int (length (fileNames fsm)) \<le> currentFile fsm + 1 then Terminate else OpenFile)
           \<and> fileNames fsm' = fileNames fsm \<and> writer fsm' = writer fsm
           \<and> opened fsm' = opened fsm @ [path]
           \<and> printed fsm' = printed fsm @ [''Error: '' @ Error e]"
  using assms by (simp add: iters3 client_defs Let_def)

lemma read_fails_skips:
  assumes "currentState fsm = OpenFile" and "0 \<le> currentFile fsm"
    and "currentFile fsm < int (length (fileNames fsm))"
    and "path = fileNames fsm ! nat (currentFile fsm)"
    and "writer fsm = Some w"
    and "os_Open W (currentFile fsm) path = None"
    and "File_Stat W (currentFile fsm) path = Inr name"
    and "sendBytes w (bytes_of_string name) = ((n, None), w1)"
    and "os_ReadFile W (currentFile fsm) path = Inl e"
  shows "\<exists>fsm'. ClientFSM_iters 5 W fsm = Inr fsm'
           \<and> currentFile fsm' = currentFile fsm + 1
           \<and> currentState fsm' =
               (if int (length (fileNames fsm)) \<le> currentFile fsm + 1 then Terminate else OpenFile)
           \<and> fileNames fsm' = fileNames fsm \<and> writer fsm' = Some w1
           \<and> opened fsm' = opened fsm @ [path]
           \<and> printed fsm' = printed fsm @ [''Error: '' @ Error e]"
  using assms by (simp add: iters5 iters4 iters3 client_defs Let_def)

lemma name_send_fails_aborts:
  assumes "currentState fsm = OpenFile" and "0 \<le> currentFile fsm"
    and "currentFile fsm < int (length (fileNames fsm))"
    and "path = fileNames fsm ! nat (currentFile fsm)"
    and "writer fsm = Some w"
    and "os_Open W (currentFile fsm) path = None"
    and "File_Stat W (currentFile fsm) path = Inr name"
    and "sendBytes w (bytes_of_string name) = ((n, Some e), w1)"
  shows "\<exists>fsm'. ClientFSM_iters 3 W fsm = Inr fsm'
           \<and> currentState fsm' = Terminate
           \<and> currentFile fsm' = currentFile fsm
           \<and> opened fsm' = opened fsm @ [path]
           \<and> printed fsm' = printed fsm @ [''Fatal Error: '' @ Error e]
           \<and> ClientFSM_Run W fsm = Some (Inr (ClientFSM_TerminateState fsm'))"
proof -
  from assms obtain fsm' where s: "ClientFSM_iters 3 W fsm = Inr fsm'"
    and p: "currentState fsm' = Terminate" "currentFile fsm' = currentFile fsm"
      "opened fsm' = opened fsm @ [path]"
      "printed fsm' = printed fsm @ [''Fatal Error: '' @ Error e]"
    by (simp add: iters3 client_defs Let_def)
  from ClientFSM_Run_iters [OF s p(1)] s p show ?thesis by blast
qed

lemma content_send_fails_aborts:
  assumes "currentState fsm = OpenFile" and "0 \<le> currentFile fsm"
    and "currentFile fsm < int (length (fileNames fsm))"
    and "path = fileNames fsm ! nat (currentFile fsm)"
    and "writer fsm = Some w"
    and "os_Open W (currentFile fsm) path = None"
    and "File_Stat W (currentFile fsm) path = Inr name"
    and "sendBytes w (bytes_of_string name) = ((n, None), w1)"
    and "os_ReadFile W (currentFile fsm) path = Inr fileData"
    and "sendBytes w1 fileData = ((m, Some e), w2)"
  shows "\<exists>fsm'. ClientFSM_iters 4 W fsm = Inr fsm'
           \<and> currentState fsm' = Terminate
           \<and> currentFile fsm' = currentFile fsm
           \<and> opened fsm' = opened fsm @ [path]
           \<and> printed fsm' = printed fsm @ [''Fatal Error: '' @ Error e]
           \<and> ClientFSM_Run W fsm = Some (Inr (ClientFSM_TerminateState fsm'))"
proof -
  from assms obtain fsm' where s: "ClientFSM_iters 4 W fsm = Inr fsm'"
    and p: "currentState fsm' = Terminate" "currentFile fsm' = currentFile fsm"
      "opened fsm' = opened fsm @ [path]"
      "printed fsm' = printed fsm @ [''Fatal Error: '' @ Error e]"
    by (simp add: iters4 iters3 client_defs Let_def)
  from ClientFSM_Run_iters [OF s p(1)] s p show ?thesis by blast
qed


text \<open>
  Claim C4. For every file of the batch (the machine is in \<open>OpenFile\<close> with the cursor on
  it): when opening the file fails, or reading it fails after its name was sent, the
  error is printed, the cursor moves to the next file and the machine is back in
  \<open>OpenFile\<close> for it (in \<open>Terminate\<close> after the last file); when sending the file's name
  or its content fails, the machine prints the fatal error and goes to \<open>Terminate\<close> with
  the cursor where it was, and the run ends there: no later file is opened.
\<close>

theorem file_errors_skip_send_errors_abort:
  assumes "currentState fsm = OpenFile" and "0 \<le> currentFile fsm"
    and "currentFile fsm < int (length (fileNames fsm))"
    and "path = fileNames fsm ! nat (currentFile fsm)"
    and "writer fsm = Some w"
  shows
    "(\<forall>e. os_Open W (currentFile fsm) path = Some e \<longrightarrow>
        (\<exists>fsm'. ClientFSM_iters 3 W fsm = Inr fsm'
           \<and> currentFile fsm' = currentFile fsm + 1
           \<and> currentState fsm' =
               (if int (length (fileNames fsm)) \<le> currentFile fsm + 1 then Terminate else OpenFile)
           \<and> fileNames fsm' = fileNames fsm \<and> writer fsm' = writer fsm
           \<and> opened fsm' = opened fsm @ [path]
           \<and> printed fsm' = printed fsm @ [''Error: '' @ Error e]))
     \<and> (\<forall>name n w1 e. os_Open W (currentFile fsm) path = None
          \<and> File_Stat W (currentFile fsm) path = Inr name
          \<and> sendBytes w (bytes_of_string name) = ((n, None), w1)
          \<and> os_ReadFile W (currentFile fsm) path = Inl e \<longrightarrow>
        (\<exists>fsm'. ClientFSM_iters 5 W fsm = Inr fsm'
           \<and> currentFile fsm' = currentFile fsm + 1
           \<and> currentState fsm' =
               (if int (length (fileNames fsm)) \<le> currentFile fsm + 1 then Terminate else OpenFile)
           \<and> fileNames fsm' = fileNames fsm \<and> writer fsm' = Some w1
           \<and> opened fsm' = opened fsm @ [path]
           \<and> printed fsm' = printed fsm @ [''Error: '' @ Error e]))
     \<and> (\<forall>name n w1 e. os_Open W (currentFile fsm) path = None
          \<and> File_Stat W (currentFile fsm) path = Inr name
          \<and> sendBytes w (bytes_of_string name) = ((n, Some e), w1) \<longrightarrow>
        (\<exists>fsm'. ClientFSM_iters 3 W fsm = Inr fsm'
           \<and> currentState fsm' = Terminate
           \<and> currentFile fsm' = currentFile fsm
           \<and> opened fsm' = opened fsm @ [path]
           \<and> printed fsm' = printed fsm @ [''Fatal Error: '' @ Error e]
           \<and> ClientFSM_Run W fsm = Some (Inr (ClientFSM_TerminateState fsm'))))
     \<and> (\<forall>name n w1 fileData m w2 e. os_Open W (currentFile fsm) path = None
          \<and> File_Stat W (currentFile fsm) path = Inr name
          \<and> sendBytes w (bytes_of_string name) = ((n, None), w1)
          \<and> os_ReadFile W (currentFile fsm) path = Inr fileData
          \<and> sendBytes w1 fileData = ((m, Some e), w2) \<longrightarrow>
        (\<exists>fsm'. ClientFSM_iters 4 W fsm = Inr fsm'
           \<and> currentState fsm' = Terminate
           \<and> currentFile fsm' = currentFile fsm
           \<and> opened fsm' = opened fsm @ [path]
           \<and> printed fsm' = printed fsm @ [''Fatal Error: '' @ Error e]
           \<and> ClientFSM_Run W fsm = Some (Inr (ClientFSM_TerminateState fsm'))))"
proof (intro conjI allI impI)
  fix e
  assume "os_Open W (currentFile fsm) path = Some e"
  from open_fails_skips [OF assms(1-4) this]
  show "\<exists>fsm'. ClientFSM_iters 3 W fsm = Inr fsm'
           \<and> currentFile fsm' = currentFile fsm + 1
           \<and> currentState fsm' =
               (if int (length (fileNames fsm)) \<le> currentFile fsm + 1 then Terminate else OpenFile)
           \<and> fileNames fsm' = fileNames fsm \<and> writer fsm' = writer fsm
           \<and> opened fsm' = opened fsm @ [path]
           \<and> printed fsm' = printed fsm @ [''Error: '' @ Error e]" .
next
  fix name n w1 e
  assume "os_Open W (currentFile fsm) path = None
          \<and> File_Stat W (currentFile fsm) path = Inr name
          \<and> sendBytes w (bytes_of_string name) = ((n, None), w1)
          \<and> os_ReadFile W (currentFile fsm) path = Inl e"
  then show "\<exists>fsm'. ClientFSM_iters 5 W fsm = Inr fsm'
           \<and> currentFile fsm' = currentFile fsm + 1
           \<and> currentState fsm' =
               (if int (length (fileNames fsm)) \<le> currentFile fsm + 1 then Terminate else OpenFile)
           \<and> fileNames fsm' = fileNames fsm \<and> writer fsm' = Some w1
           \<and> opened fsm' = opened fsm @ [path]
           \<and> printed fsm' = printed fsm @ [''Error: '' @ Error e]"
    using read_fails_skips [OF assms, of W name n w1 e] by blast
next
  fix name n w1 e
  assume "os_Open W (currentFile fsm) path = None
          \<and> File_Stat W (currentFile fsm) path = Inr name
          \<and> sendBytes w (bytes_of_string name) = ((n, Some e), w1)"
  then show "\<exists>fsm'. ClientFSM_iters 3 W fsm = Inr fsm'
           \<and> currentState fsm' = Terminate
           \<and> currentFile fsm' = currentFile fsm
           \<and> opened fsm' = opened fsm @ [path]
           \<and> printed fsm' = printed fsm @ [''Fatal Error: '' @ Error e]
           \<and> ClientFSM_Run W fsm = Some (Inr (ClientFSM_TerminateState fsm'))"
    using name_send_fails_aborts [OF assms, of W name n e w1] by blast
next
  fix name n w1 fileData m w2 e
  assume "os_Open W (currentFile fsm) path = None
          \<and> File_Stat W (currentFile fsm) path = Inr name
          \<and> sendBytes w (bytes_of_string name) = ((n, None), w1)
          \<and> os_ReadFile W (currentFile fsm) path = Inr fileData
          \<and> sendBytes w1 fileData = ((m, Some e), w2)"
  then show "\<exists>fsm'. ClientFSM_iters 4 W fsm = Inr fsm'
           \<and> currentState fsm' = Terminate
           \<and> currentFile fsm' = currentFile fsm
           \<and> opened fsm' = opened fsm @ [path]
           \<and> printed fsm' = printed fsm @ [''Fatal Error: '' @ Error e]
           \<and> ClientFSM_Run W fsm = Some (Inr (ClientFSM_TerminateState fsm'))"
    using content_send_fails_aborts [OF assms, of W name n w1 fileData m e w2] by blast
qed

theorem file_errors_skip_send_errors_abort_witness:
  "os_Open World_b_missing 0 ''b.txt'' = Some (Err ''open b.txt: no such file or directory'')
   \<and> (\<exists>fsm'. ClientFSM_iters 3 World_b_missing
                 (at_OpenFile [''b.txt'', ''a.txt''] 0 (NewWriter (conn_fail World_b_missing)))
               = Inr fsm'
         \<and> currentFile fsm' = 1 \<and> currentState fsm' = OpenFile
         \<and> opened fsm' = [''b.txt'']
         \<and> printed fsm' = [''Error: open b.txt: no such file or directory''])
   \<and> fst (sendBytes ((NewWriter (conn_fail World_broken_pipe))\<lparr>sent := [[0, 0, 0, 2]]\<rparr>)
             (bytes_of_string ''a.txt'')) = (- 1, Some (Err ''write: broken pipe''))
   \<and> (\<exists>fsm'. ClientFSM_iters 3 World_broken_pipe
                 (at_OpenFile [''a.txt'', ''b.txt''] 0
                    ((NewWriter (conn_fail World_broken_pipe))\<lparr>sent := [[0, 0, 0, 2]]\<rparr>))
               = Inr fsm'
         \<and> currentFile fsm' = 0 \<and> currentState fsm' = Terminate
         \<and> opened fsm' = [''a.txt'']
         \<and> printed fsm' = [''Fatal Error: write: broken pipe''])
   \<and> os_ReadFile World_b_unreadable 0 ''b.txt'' = Inl (Err ''read b.txt: is a directory'')
   \<and> (\<exists>fsm'. ClientFSM_iters 5 World_b_unreadable
                 (at_OpenFile [''b.txt'', ''a.txt''] 0 (NewWriter (conn_fail World_b_unreadable)))
               = Inr fsm'
         \<and> currentFile fsm' = 1 \<and> currentState fsm' = OpenFile
         \<and> opened fsm' = [''b.txt'']
         \<and> printed fsm' = [''Error: read b.txt: is a directory''])
   \<and> (\<exists>fsm'. ClientFSM_iters 4 World_broken_pipe_late
                 (at_OpenFile [''a.txt'', ''b.txt''] 0
                    ((NewWriter (conn_fail World_broken_pipe_late))\<lparr>sent := [[0, 0, 0, 2]]\<rparr>))
               = Inr fsm'
         \<and> currentFile fsm' = 0 \<and> currentState fsm' = Terminate
         \<and> opened fsm' = [''a.txt'']
         \<and> printed fsm' = [''Fatal Error: write: broken pipe''])"
proof -
  let ?wb = "NewWriter (conn_fail World_b_missing)"
  let ?fb = "at_OpenFile [''b.txt'', ''a.txt''] 0 ?wb"
  let ?wp = "(NewWriter (conn_fail World_broken_pipe))\<lparr>sent := [[0, 0, 0, 2]]\<rparr>"
  let ?fp = "at_OpenFile [''a.txt'', ''b.txt''] 0 ?wp"
  have o: "os_Open World_b_missing 0 ''b.txt''
      = Some (Err ''open b.txt: no such file or directory'')"
    by (simp add: World_b_missing_def)
  have b: "currentState ?fb = OpenFile" "0 \<le> currentFile ?fb"
    "currentFile ?fb < int (length (fileNames ?fb))"
    "''b.txt'' = fileNames ?fb ! nat (currentFile ?fb)" "writer ?fb = Some ?wb"
    by (simp_all add: at_OpenFile_def NewClientFSM_def)
  from file_errors_skip_send_errors_abort [OF b, of World_b_missing] o
  have A: "\<exists>fsm'. ClientFSM_iters 3 World_b_missing ?fb = Inr fsm'
         \<and> currentFile fsm' = 1 \<and> currentState fsm' = OpenFile
         \<and> opened fsm' = [''b.txt'']
         \<and> printed fsm' = [''Error: open b.txt: no such file or directory'']"
    by (simp add: at_OpenFile_def NewClientFSM_def) blast
  obtain n w1 where sb: "sendBytes ?wp (bytes_of_string ''a.txt'')
      = ((n, Some (Err ''write: broken pipe'')), w1)" and n: "n = - 1"
    by (simp add: codec_defs World_broken_pipe_def bytes_of_string_def)
  have p: "currentState ?fp = OpenFile" "0 \<le> currentFile ?fp"
    "currentFile ?fp < int (length (fileNames ?fp))"
    "''a.txt'' = fileNames ?fp ! nat (currentFile ?fp)" "writer ?fp = Some ?wp"
    by (simp_all add: at_OpenFile_def NewClientFSM_def)
  have oa: "os_Open World_broken_pipe (currentFile ?fp) ''a.txt'' = None"
    "File_Stat World_broken_pipe (currentFile ?fp) ''a.txt'' = Inr ''a.txt''"
    by (simp_all add: World_broken_pipe_def)
  from file_errors_skip_send_errors_abort [OF p, of World_broken_pipe] oa sb
  have B: "\<exists>fsm'. ClientFSM_iters 3 World_broken_pipe ?fp = Inr fsm'
         \<and> currentFile fsm' = 0 \<and> currentState fsm' = Terminate
         \<and> opened fsm' = [''a.txt'']
         \<and> printed fsm' = [''Fatal Error: write: broken pipe'']"
    by (simp add: at_OpenFile_def NewClientFSM_def) blast
  let ?wu = "NewWriter (conn_fail World_b_unreadable)"
  let ?fu = "at_OpenFile [''b.txt'', ''a.txt''] 0 ?wu"
  let ?wl = "(NewWriter (conn_fail World_broken_pipe_late))\<lparr>sent := [[0, 0, 0, 2]]\<rparr>"
  let ?fl = "at_OpenFile [''a.txt'', ''b.txt''] 0 ?wl"
  have u: "currentState ?fu = OpenFile" "0 \<le> currentFile ?fu"
    "currentFile ?fu < int (length (fileNames ?fu))"
    "''b.txt'' = fileNames ?fu ! nat (currentFile ?fu)" "writer ?fu = Some ?wu"
    by (simp_all add: at_OpenFile_def NewClientFSM_def)
  have ou: "os_Open World_b_unreadable (currentFile ?fu) ''b.txt'' = None"
    "File_Stat World_b_unreadable (currentFile ?fu) ''b.txt'' = Inr ''b.txt''"
    "os_ReadFile World_b_unreadable (currentFile ?fu) ''b.txt''
       = Inl (Err ''read b.txt: is a directory'')"
    by (simp_all add: World_b_unreadable_def)
  obtain n w1 where su: "sendBytes ?wu (bytes_of_string ''b.txt'') = ((n, None), w1)"
    by (simp add: codec_defs sendBytes_loop.simps World_b_unreadable_def bytes_of_string_def Let_def)
  from file_errors_skip_send_errors_abort [OF u, of World_b_unreadable] ou su
  have C: "\<exists>fsm'. ClientFSM_iters 5 World_b_unreadable ?fu = Inr fsm'
         \<and> currentFile fsm' = 1 \<and> currentState fsm' = OpenFile
         \<and> opened fsm' = [''b.txt'']
         \<and> printed fsm' = [''Error: read b.txt: is a directory'']"
    by (simp add: at_OpenFile_def NewClientFSM_def) blast
  have l: "currentState ?fl = OpenFile" "0 \<le> currentFile ?fl"
    "currentFile ?fl < int (length (fileNames ?fl))"
    "''a.txt'' = fileNames ?fl ! nat (currentFile ?fl)" "writer ?fl = Some ?wl"
    by (simp_all add: at_OpenFile_def NewClientFSM_def)
  have ol: "os_Open World_broken_pipe_late (currentFile ?fl) ''a.txt'' = None"
    "File_Stat World_broken_pipe_late (currentFile ?fl) ''a.txt'' = Inr ''a.txt''"
    "os_ReadFile World_broken_pipe_late (currentFile ?fl) ''a.txt'' = Inr [104, 105]"
    by (simp_all add: World_broken_pipe_late_def)
  obtain n1 w1' where sl1: "sendBytes ?wl (bytes_of_string ''a.txt'') = ((n1, None), w1')"
    and sl2: "\<exists>m w2. sendBytes w1' [104, 105] = ((m, Some (Err ''write: broken pipe'')), w2)"
    by (simp add: codec_defs sendBytes_loop.simps World_broken_pipe_late_def bytes_of_string_def Let_def)
  from sl2 obtain m w2 where sl2': "sendBytes w1' [104, 105]
      = ((m, Some (Err ''write: broken pipe'')), w2)" by blast
  from file_errors_skip_send_errors_abort [OF l, of World_broken_pipe_late] ol sl1 sl2'
  have D: "\<exists>fsm'. ClientFSM_iters 4 World_broken_pipe_late ?fl = Inr fsm'
         \<and> currentFile fsm' = 0 \<and> currentState fsm' = Terminate
         \<and> opened fsm' = [''a.txt'']
         \<and> printed fsm' = [''Fatal Error: write: broken pipe'']"
    by (simp add: at_OpenFile_def NewClientFSM_def) blast
  from o A sb n B ou(3) C D show ?thesis by (simp add: at_OpenFile_def NewClientFSM_def)
qed


subsection \<open>The file count and the files attempted\<close>

lemma take_Suc_nat: "0 \<le> c \<Longrightarrow> c < int (length fs) \<Longrightarrow>
    take (nat c) fs @ [fs ! nat c] = take (Suc (nat c)) fs"
  by (simp add: take_Suc_conv_app_nth)

lemma ClientFSM_batch_step:
  assumes "ClientFSM_batch fs fsm" and "currentState fsm \<noteq> Terminate"
  shows "\<exists>fsm'. ClientFSM_iter W fsm = Inr fsm' \<and> ClientFSM_batch fs fsm'"
proof -
  from assms(1) obtain w where w: "writer fsm = Some w" "good_writer w"
    and fn: "fileNames fsm = fs"
    by (auto simp: ClientFSM_batch_def)
  have sb: "\<exists>w'. sendBytes w data = ((int (length data), None), w') \<and> good_writer w'
      \<and> (sent w \<noteq> [] \<longrightarrow> sent w' \<noteq> [] \<and> hd (sent w') = hd (sent w))" for data
    using sendBytes_good [OF w(2), of data] by auto
  show ?thesis
  proof (cases "currentState fsm")
    case SendFileCount
    from sendInt_good [OF w(2), of "int (length fs)"] obtain w' where
      "sendInt w (int (length fs)) = (None, w')" "good_writer w'"
      "sent w' = sent w @ [PutUint32 (int32 (int (length fs)))]" by blast
    with assms SendFileCount w fn show ?thesis
      by (auto simp: client_defs ClientFSM_batch_def)
  next
    case OpenFile
    with assms w fn show ?thesis
      by (auto simp: client_defs ClientFSM_batch_def Let_def take_Suc_nat split: option.splits)
  next
    case SendFileName
    show ?thesis
    proof (cases "case file' fsm of None \<Rightarrow> Inl (Err ''invalid argument'')
            | Some path \<Rightarrow> File_Stat W (currentFile fsm) path")
      case (Inl e)
      with assms SendFileName w fn show ?thesis
        by (auto simp: client_defs ClientFSM_batch_def Let_def)
    next
      case (Inr name)
      from sb [of "bytes_of_string name"] obtain w' where
        "sendBytes w (bytes_of_string name) = ((int (length (bytes_of_string name)), None), w')"
        "good_writer w'" "sent w \<noteq> [] \<longrightarrow> sent w' \<noteq> [] \<and> hd (sent w') = hd (sent w)" by blast
      with Inr assms SendFileName w fn show ?thesis
        by (auto simp: client_defs ClientFSM_batch_def Let_def)
    qed
  next
    case ReadAndSendFileData
    show ?thesis
    proof (cases "os_ReadFile W (currentFile fsm) (fs ! nat (currentFile fsm))")
      case (Inl e)
      with assms ReadAndSendFileData w fn show ?thesis
        by (auto simp: client_defs ClientFSM_batch_def Let_def)
    next
      case (Inr fileData)
      from sb [of fileData] obtain w' where
        "sendBytes w fileData = ((int (length fileData), None), w')"
        "good_writer w'" "sent w \<noteq> [] \<longrightarrow> sent w' \<noteq> [] \<and> hd (sent w') = hd (sent w)" by blast
      with Inr assms ReadAndSendFileData w fn show ?thesis
        by (auto simp: client_defs ClientFSM_batch_def Let_def nat_add_distrib)
    qed
  next
    case SendNextFile
    with assms w fn show ?thesis
      by (auto simp: client_defs ClientFSM_batch_def Let_def split: option.splits)
  next
    case HandleError
    with assms w fn show ?thesis
      by (auto simp: client_defs ClientFSM_batch_def Let_def nat_add_distrib split: option.splits)
  qed (use assms in \<open>auto simp: ClientFSM_batch_def\<close>)
qed


text \<open>
  Claim C5 as stated (in every run that reaches \<open>SendFileCount\<close> the count sent equals the
  number of files attempted) fails when a send breaks: with two files and a connection
  that accepts the count and then fails, the count 2 is on the wire and only \<^verbatim>\<open>a.txt\<close> is
  ever opened.
\<close>

theorem count_counterexample:
  "map_option (map_sum id opened) (ClientFSM_Run World_broken_pipe NewClientFSM)
     = Some (Inr [''a.txt''])
   \<and> map_option (map_sum id (map_option sent \<circ> writer))
       (ClientFSM_Run World_broken_pipe NewClientFSM)
     = Some (Inr (Some [[0, 0, 0, 2]]))"
  by (simp add: ClientFSM_Run.simps client_defs codec_defs sendBytes_loop.simps
      World_broken_pipe_def NewClientFSM_def arguments_def ClientFSM_TerminateState_def
      bytes_of_string_def Let_def)


text \<open>
  Claim C5, amended. For every client run that reaches \<open>SendFileCount\<close> (which it does
  after 3 passes) and in which no write on the connection fails, the run ends with the
  count as the first write on the wire, equal to the number of files attempted, and the
  files attempted are the files of the argument list, each once and in order, whatever
  the outcomes of opening and reading them. Read back by \<open>receiveInt\<close>, the count is
  that number (for fewer than \<open>2^32\<close> files).
\<close>

theorem count_equals_attempts:
  assumes "ClientFSM_iters 3 W NewClientFSM = Inr f0" and "currentState f0 = SendFileCount"
    and "\<forall>k. conn_fail W k = None"
  shows "\<exists>fsm' w ws. ClientFSM_Run W NewClientFSM = Some (Inr fsm')
           \<and> opened fsm' = drop 2 (os_Args W)
           \<and> writer fsm' = Some w
           \<and> sent w = PutUint32 (int32 (int (length (opened fsm')))) # ws
           \<and> (length (opened fsm') < 2 ^ 32 \<longrightarrow>
                fst (receiveInt (NewReader (sent w) EOF)) = (int (length (opened fsm')), None))"
proof -
  define fs where "fs = drop 2 (os_Args W)"
  from assms have b0: "ClientFSM_batch fs f0"
    by (auto simp: iters3 client_defs NewClientFSM_def ClientFSM_batch_def good_writer_def
        NewWriter_def fs_def arguments_def Let_def split: if_splits option.splits)
  have ni: "currentState f \<noteq> Initialization" if "ClientFSM_batch fs f" for f
    using that by (auto simp: ClientFSM_batch_def)
  from ClientFSM_reaches_Terminate_inv [of "ClientFSM_batch fs" W f0,
      OF ClientFSM_batch_step ni b0]
  obtain n fsm' where n: "ClientFSM_iters n W f0 = Inr fsm'" "currentState fsm' = Terminate"
    "ClientFSM_batch fs fsm'" by blast
  from n(1) assms(1) have "ClientFSM_iters (3 + n) W NewClientFSM = Inr fsm'"
    by (simp add: ClientFSM_iters_add)
  from ClientFSM_Run_iters [OF this n(2)]
  have run: "ClientFSM_Run W NewClientFSM = Some (Inr (ClientFSM_TerminateState fsm'))" .
  from n(2,3) obtain w where w: "writer fsm' = Some w" "sent w \<noteq> []"
    "hd (sent w) = PutUint32 (int32 (int (length fs)))" and op: "opened fsm' = fs"
    by (auto simp: ClientFSM_batch_def)
  from w(2,3) obtain ws where ws: "sent w = PutUint32 (int32 (int (length fs))) # ws"
    by (cases "sent w") auto
  have dec: "fst (receiveInt (NewReader (sent w) EOF)) = (int (length fs), None)"
    if "length fs < 2 ^ 32"
  proof -
    have h: "header_whole (NewReader (sent w) EOF)"
      by (simp add: header_whole_def NewReader_def ws)
    have st: "stream (NewReader (sent w) EOF) = PutUint32 (int32 (int (length fs))) @ concat ws"
      by (simp add: stream_def NewReader_def ws)
    have "uint (int32 (int (length fs))) = int (length fs)"
      using that by (intro uint_int32) auto
    with receiveInt_whole [OF h] show ?thesis
      unfolding st by (auto simp: Uint32_PutUint32_exact)
  qed
  let ?t = "ClientFSM_TerminateState fsm'"
  have "opened ?t = fs" "writer ?t = Some w"
    using op w(1) by (auto simp: ClientFSM_TerminateState_def Let_def split: option.splits)
  with run ws dec show ?thesis
    unfolding fs_def [symmetric] by (intro exI [of _ ?t] exI [of _ w] exI [of _ ws]) simp
qed

theorem count_equals_attempts_witness:
  "map_sum id currentState (ClientFSM_iters 3 World_b_missing NewClientFSM) = Inr SendFileCount
   \<and> (\<forall>k. conn_fail World_b_missing k = None)
   \<and> (\<exists>fsm' w ws. ClientFSM_Run World_b_missing NewClientFSM = Some (Inr fsm')
         \<and> opened fsm' = [''a.txt'', ''b.txt'']
         \<and> writer fsm' = Some w \<and> sent w = [0, 0, 0, 2] # ws
         \<and> fst (receiveInt (NewReader (sent w) EOF)) = (2, None))"
proof -
  obtain f0 where f0: "ClientFSM_iters 3 World_b_missing NewClientFSM = Inr f0"
    "currentState f0 = SendFileCount"
    by (simp add: iters3 client_defs World_b_missing_def NewClientFSM_def arguments_def Let_def)
  have nf: "\<forall>k. conn_fail World_b_missing k = None" by (simp add: World_b_missing_def)
  from count_equals_attempts [OF f0 nf] obtain fsm' w ws where
    r: "ClientFSM_Run World_b_missing NewClientFSM = Some (Inr fsm')"
    "opened fsm' = drop 2 (os_Args World_b_missing)" "writer fsm' = Some w"
    "sent w = PutUint32 (int32 (int (length (opened fsm')))) # ws"
    "length (opened fsm') < 2 ^ 32 \<longrightarrow>
       fst (receiveInt (NewReader (sent w) EOF)) = (int (length (opened fsm')), None)"
    by blast
  from r(2) have o: "opened fsm' = [''a.txt'', ''b.txt'']" by (simp add: World_b_missing_def)
  with r(4) have s: "sent w = [0, 0, 0, 2] # ws" by (simp add: PutUint32_def int32_def)
  from r(5) o have d: "fst (receiveInt (NewReader (sent w) EOF)) = (2, None)" by simp
  from f0 nf r(1,3) o s d show ?thesis by auto
qed


end
